theory Spec2Isabelle
  imports Complex_Main "HOL-Library.AList"
begin

section \<open>The world outside the script\<close>

text \<open>
  \<^verbatim>\<open>pi-camera.py\<close> is a script of effects: it reads the clock, the camera and the disk,
  writes and removes files, spawns \<^verbatim>\<open>git\<close> and sleeps. The model threads an explicit
  world through every call. The world holds the files (an association list from path to
  file, in directory-listing order), the directories that exist, the reading that
  \<^verbatim>\<open>shutil.disk_usage("/")\<close> gives for a set of files, the JPEG encoder, and the trace of
  the effects performed so far, oldest first.
\<close>

type_synonym frame = "nat list list"

record inode =
  ctime :: nat
  body :: string
  locked :: bool

text \<open>
  \<open>locked\<close> stands for every reason for which \<^verbatim>\<open>os.remove\<close> refuses an existing entry
  (permission denied, the entry is a directory).
\<close>

datatype error =
    FileNotFoundError
  | PermissionError
  | ZeroDivisionError
  | ValueError
  | SpawnError string
  | CameraError string
  | FileExistsError

datatype event =
    Strftime string
  | CaptureArray
  | Rotate
  | Imwrite string string bool
  | Makedirs string
  | WriteFile string string
  | AppendFile string string
  | Git "string list" string
  | Printed string
  | Removed string
  | DiskUsage
  | Listdir string
  | Slept int
  | CameraStop

record world =
  files :: "(string \<times> inode) list"
  dirs :: "string list"
  disk :: "(string \<times> inode) list \<Rightarrow> nat \<times> nat \<times> nat"
  codec :: "frame \<Rightarrow> string"
  trace :: "event list"

datatype result = Ok world | Raised error world

text \<open>Sequencing: an exception skips the rest and keeps the world as it was left.\<close>

fun and_then :: "result \<Rightarrow> (world \<Rightarrow> result) \<Rightarrow> result" where
  "and_then (Ok w) k = k w"
| "and_then (Raised e w) k = Raised e w"

definition emit :: "event \<Rightarrow> world \<Rightarrow> world" where
  "emit e w = w\<lparr>trace := trace w @ [e]\<rparr>"

definition print :: "string \<Rightarrow> world \<Rightarrow> world" where
  "print s w = emit (Printed s) w"

subsection \<open>Strings and paths\<close>

definition endswith :: "string \<Rightarrow> string \<Rightarrow> bool" where
  "endswith s suffix =
     (length suffix \<le> length s \<and> drop (length s - length suffix) s = suffix)"

text \<open>\<^verbatim>\<open>os.path.join\<close> of two components (posixpath).\<close>

definition os_path_join :: "string \<Rightarrow> string \<Rightarrow> string" where
  "os_path_join a b =
     (if b \<noteq> [] \<and> hd b = CHR ''/'' then b
      else if a = [] \<or> last a = CHR ''/'' then a @ b
      else a @ ''/'' @ b)"

subsection \<open>Operating-system calls\<close>

definition os_path_exists :: "string \<Rightarrow> world \<Rightarrow> bool" where
  "os_path_exists path w = (map_of (files w) path \<noteq> None \<or> path \<in> set (dirs w))"

text \<open>
  The name under which \<open>path\<close> is an entry of \<open>directory\<close>, if it is one: the path is
  the directory, a separator, and a name with no separator in it.
\<close>

definition entry_name :: "string \<Rightarrow> string \<Rightarrow> string option" where
  "entry_name directory path =
     (let pre = os_path_join directory [];
          name = drop (length pre) path
      in if take (length pre) path = pre \<and> name \<noteq> [] \<and> CHR ''/'' \<notin> set name
         then Some name else None)"

text \<open>\<^verbatim>\<open>os.listdir\<close>: raises when the directory is missing; lists each entry once.\<close>

definition os_listdir :: "string \<Rightarrow> world \<Rightarrow> string list option" where
  "os_listdir directory w =
     (if directory \<in> set (dirs w)
      then Some (remdups (List.map_filter (entry_name directory) (map fst (files w))))
      else None)"

definition os_path_getctime :: "string \<Rightarrow> world \<Rightarrow> nat option" where
  "os_path_getctime path w = map_option ctime (map_of (files w) path)"

definition os_remove :: "string \<Rightarrow> world \<Rightarrow> result" where
  "os_remove path w =
     (case map_of (files w) path of
        None \<Rightarrow> Raised FileNotFoundError w
      | Some f \<Rightarrow>
          if locked f then Raised PermissionError w
          else Ok (emit (Removed path) (w\<lparr>files := AList.delete path (files w)\<rparr>)))"

definition shutil_disk_usage :: "world \<Rightarrow> nat \<times> nat \<times> nat" where
  "shutil_disk_usage w = disk w (files w)"

section \<open>Disk Guard: \<^verbatim>\<open>manage_disk_usage\<close>\<close>

text \<open>
  \<^verbatim>\<open>total, used, free = shutil.disk_usage("/"); used_percentage = (used / total) * 100\<close>,
  the two lines that open the function and close each round of its loop. The quotient
  is taken in the reals: the rounding of Python's floats is not modelled. Python's
  division raises when \<open>total\<close> is zero.
\<close>

definition percentage :: "nat \<times> nat \<times> nat \<Rightarrow> error + real" where
  "percentage usage =
     (case usage of
        (total_bytes, used_bytes, free_bytes) \<Rightarrow>
          if total_bytes = 0 then Inl ZeroDivisionError
          else Inr (real used_bytes / real total_bytes * 100))"

definition used_percentage :: "world \<Rightarrow> error + real" where
  "used_percentage w = percentage (shutil_disk_usage w)"

text \<open>
  \<^verbatim>\<open>sorted(paths, key=os.path.getctime)\<close>: the key of every path is read once, and the
  sort is stable.
\<close>

definition sorted_by_getctime :: "string list \<Rightarrow> world \<Rightarrow> string list option" where
  "sorted_by_getctime paths w =
     map_option (\<lambda>keyed. map snd (sort_key fst keyed))
       (those (map (\<lambda>p. map_option (\<lambda>t. (t, p)) (os_path_getctime p w)) paths))"

text \<open>
  The loop \<^verbatim>\<open>while used_percentage > threshold and files:\<close> of lines 53 to 58, on the
  remaining candidates.
\<close>

fun evict :: "real \<Rightarrow> real \<Rightarrow> string list \<Rightarrow> world \<Rightarrow> result" where
  "evict threshold pct [] w = Ok w"
| "evict threshold pct (oldest_file # files') w =
     (if pct > threshold then
        and_then (os_remove oldest_file w) (\<lambda>w1.
          let w2 = emit DiskUsage (print (''Deleted '' @ oldest_file) w1) in
          case used_percentage w2 of
            Inl e \<Rightarrow> Raised e w2
          | Inr pct' \<Rightarrow> evict threshold pct' files' w2)
      else Ok w)"

text \<open>
  Lines 49 to 52: the entries of the directory whose name ends in \<^verbatim>\<open>.jpg\<close>, joined to
  the directory, oldest \<open>ctime\<close> first. \<open>None\<close> is the \<^verbatim>\<open>FileNotFoundError\<close> of
  \<^verbatim>\<open>os.listdir\<close> or \<^verbatim>\<open>os.path.getctime\<close>.
\<close>

definition candidates :: "string \<Rightarrow> world \<Rightarrow> string list option" where
  "candidates directory w =
     (case os_listdir directory w of
        None \<Rightarrow> None
      | Some names \<Rightarrow>
          sorted_by_getctime
            (map (os_path_join directory) (filter (\<lambda>f. endswith f ''.jpg'') names)) w)"

definition manage_disk_usage :: "string \<Rightarrow> real \<Rightarrow> world \<Rightarrow> result" where
  "manage_disk_usage directory threshold w0 =
     (let w = emit DiskUsage w0 in
      case used_percentage w of
        Inl e \<Rightarrow> Raised e w
      | Inr pct \<Rightarrow>
          if pct > threshold then
            (let w1 = emit (Listdir directory)
                        (print ''Disk usage exceeded threshold. Deleting oldest files...'' w)
             in case candidates directory w1 of
                  None \<Rightarrow> Raised FileNotFoundError w1
                | Some files' \<Rightarrow> evict threshold pct files' w1)
          else Ok w)"

section \<open>Clock, camera, files and processes\<close>

record struct_time =
  tm_year :: nat
  tm_mon :: nat
  tm_mday :: nat
  tm_hour :: nat
  tm_min :: nat
  tm_sec :: nat

definition digit_char :: "nat \<Rightarrow> char" where
  "digit_char n = ''0123456789'' ! (n mod 10)"

fun decimal :: "nat \<Rightarrow> string" where
  "decimal n = (if n < 10 then [digit_char n] else decimal (n div 10) @ [digit_char n])"

declare decimal.simps [simp del]

definition two_digits :: "nat \<Rightarrow> string" where
  "two_digits n = [digit_char (n div 10), digit_char n]"

text \<open>
  \<^verbatim>\<open>time.strftime("%Y%m%d-%H%M%S")\<close> on the local time: the year in decimal, the other
  fields zero-padded to two digits.
\<close>

definition strftime :: "struct_time \<Rightarrow> string" where
  "strftime t =
     decimal (tm_year t) @ two_digits (tm_mon t) @ two_digits (tm_mday t) @ ''-'' @
     two_digits (tm_hour t) @ two_digits (tm_min t) @ two_digits (tm_sec t)"

definition newline :: char where
  "newline = CHR 0x0A"

datatype imwrite_outcome = ImwriteRaises string | ImwriteFalse | ImwriteTrue

datatype proc = Returned int | SpawnFails string

text \<open>
  What the environment answers during one pass of the capture loop: the clock, the
  camera, the image writer (it raises, returns \<^verbatim>\<open>False\<close> without writing, or writes) and
  the three \<^verbatim>\<open>git\<close> processes (an exit status, or the process cannot be started).
\<close>

record tick =
  now_local :: struct_time
  now_epoch :: nat
  capture_array :: "string + frame"
  imwrite :: imwrite_outcome
  git_add :: proc
  git_commit :: proc
  git_push :: proc

text \<open>\<^verbatim>\<open>cv2.rotate(frame, cv2.ROTATE_90_CLOCKWISE)\<close>: each column, read bottom to top, becomes a row.\<close>

definition cv2_rotate_90_clockwise :: "frame \<Rightarrow> frame" where
  "cv2_rotate_90_clockwise frame = map rev (transpose frame)"

text \<open>\<^verbatim>\<open>open(path, 'w')\<close> and one write: the file is created or truncated.\<close>

definition write_file :: "string \<Rightarrow> string \<Rightarrow> nat \<Rightarrow> world \<Rightarrow> world" where
  "write_file path text epoch w =
     w\<lparr>files :=
         AList.update path
           \<lparr>ctime = epoch, body = text,
            locked = (case map_of (files w) path of None \<Rightarrow> False | Some f \<Rightarrow> locked f)\<rparr>
           (files w)\<rparr>"

text \<open>\<^verbatim>\<open>open(path, 'a')\<close> and one write: the file is created if missing, its content kept.\<close>

definition append_file :: "string \<Rightarrow> string \<Rightarrow> nat \<Rightarrow> world \<Rightarrow> world" where
  "append_file path text epoch w =
     emit (AppendFile path text)
       (w\<lparr>files :=
           AList.update path
             (case map_of (files w) path of
                None \<Rightarrow> \<lparr>ctime = epoch, body = text, locked = False\<rparr>
              | Some f \<Rightarrow> f\<lparr>ctime := epoch, body := body f @ text\<rparr>)
             (files w)\<rparr>)"

text \<open>
  \<^verbatim>\<open>cv2.imwrite\<close> raises, or returns \<^verbatim>\<open>False\<close> and writes nothing, or writes the encoded
  frame; the script does not read what it returns.
\<close>

definition cv2_imwrite :: "string \<Rightarrow> frame \<Rightarrow> imwrite_outcome \<Rightarrow> nat \<Rightarrow> world \<Rightarrow> result" where
  "cv2_imwrite path frame outcome epoch w =
     (case outcome of
        ImwriteRaises msg \<Rightarrow> Raised (CameraError msg) w
      | ImwriteFalse \<Rightarrow> Ok (emit (Imwrite path (codec w frame) False) w)
      | ImwriteTrue \<Rightarrow>
          Ok (emit (Imwrite path (codec w frame) True)
                (write_file path (codec w frame) epoch w)))"

text \<open>\<^verbatim>\<open>subprocess.run(argv, cwd=cwd)\<close>: the exit status is returned and never read.\<close>

definition subprocess_run :: "string list \<Rightarrow> string \<Rightarrow> proc \<Rightarrow> world \<Rightarrow> result" where
  "subprocess_run argv cwd p w =
     (case p of
        SpawnFails msg \<Rightarrow> Raised (SpawnError msg) w
      | Returned status \<Rightarrow> Ok (emit (Git argv cwd) w))"

text \<open>\<^verbatim>\<open>time.sleep\<close> raises \<^verbatim>\<open>ValueError\<close> on a negative length.\<close>

definition time_sleep :: "int \<Rightarrow> world \<Rightarrow> result" where
  "time_sleep secs w = (if secs < 0 then Raised ValueError w else Ok (emit (Slept secs) w))"

fun str :: "error \<Rightarrow> string" where
  "str (SpawnError msg) = msg"
| "str (CameraError msg) = msg"
| "str FileNotFoundError = ''No such file or directory''"
| "str PermissionError = ''Permission denied''"
| "str ZeroDivisionError = ''division by zero''"
| "str ValueError = ''sleep length must be non-negative''"
| "str FileExistsError = ''File exists''"

section \<open>The capture loop\<close>

text \<open>The module-level names the loop closes over.\<close>

record session =
  experiment_name :: string
  interval :: int
  output_dir :: string
  metadata_path :: string
  readme_path :: string
  repo_path :: string

text \<open>The \<^verbatim>\<open>try\<close> block of lines 104 to 107.\<close>

definition capture_and_save :: "string \<Rightarrow> tick \<Rightarrow> world \<Rightarrow> result" where
  "capture_and_save image_path inp w =
     (case capture_array inp of
        Inl msg \<Rightarrow> Raised (CameraError msg) w
      | Inr frame \<Rightarrow>
          cv2_imwrite image_path (cv2_rotate_90_clockwise frame) (imwrite inp) (now_epoch inp)
            (emit Rotate (emit CaptureArray w)))"

text \<open>Lines 112 to 126, after the \<^verbatim>\<open>try\<close> block went through.\<close>

definition record_sync_clean :: "session \<Rightarrow> string \<Rightarrow> string \<Rightarrow> tick \<Rightarrow> world \<Rightarrow> result" where
  "record_sync_clean s timestamp image_path inp w =
     and_then
       (subprocess_run [''git'', ''add'', image_path, metadata_path s] (repo_path s) (git_add inp)
          (append_file (metadata_path s) (timestamp @ '','' @ image_path @ [newline])
             (now_epoch inp) w))
       (\<lambda>w. and_then
          (subprocess_run
             [''git'', ''commit'', ''-m'', ''Add image and metadata for '' @ timestamp]
             (repo_path s) (git_commit inp) w)
       (\<lambda>w. and_then (subprocess_run [''git'', ''push''] (repo_path s) (git_push inp) w)
       (\<lambda>w. and_then
          (os_remove image_path (print (''Captured and uploaded image at '' @ timestamp) w))
       (\<lambda>w. and_then
          (manage_disk_usage (output_dir s) 80
             (print (''Deleted local image at '' @ image_path) w))
       (\<lambda>w. time_sleep (interval s) w)))))"

text \<open>How one pass of a loop body ends: at its bottom, at \<^verbatim>\<open>continue\<close>, or with an exception.\<close>

datatype step = Next world | Continue world | Abort error world

definition iteration :: "session \<Rightarrow> tick \<Rightarrow> world \<Rightarrow> step" where
  "iteration s inp w =
     (let timestamp = strftime (now_local inp);
          image_path = os_path_join (output_dir s) (timestamp @ ''.jpg'')
      in case capture_and_save image_path inp (emit (Strftime timestamp) w) of
           Raised e w1 \<Rightarrow> Continue (print (''Failed to capture or save image: '' @ str e) w1)
         | Ok w1 \<Rightarrow>
             (case record_sync_clean s timestamp image_path inp w1 of
                Ok w2 \<Rightarrow> Next w2
              | Raised e w2 \<Rightarrow> Abort e w2))"

text \<open>
  A \<^verbatim>\<open>while\<close> loop with no \<^verbatim>\<open>break\<close> in its body. The list holds what the environment
  answers in each pass; when the list is used up the loop is still running.
\<close>

datatype loop_result = LoopRunning world | LoopExit world | LoopRaised error world

fun while_loop :: "(world \<Rightarrow> bool) \<Rightarrow> (tick \<Rightarrow> world \<Rightarrow> step) \<Rightarrow> tick list \<Rightarrow> world \<Rightarrow> loop_result" where
  "while_loop cond loop_body [] w = (if cond w then LoopRunning w else LoopExit w)"
| "while_loop cond loop_body (inp # inps) w =
     (if cond w then
        (case loop_body inp w of
           Next w' \<Rightarrow> while_loop cond loop_body inps w'
         | Continue w' \<Rightarrow> while_loop cond loop_body inps w'
         | Abort e w' \<Rightarrow> LoopRaised e w')
      else LoopExit w)"

text \<open>\<^verbatim>\<open>while True:\<close> of line 100.\<close>

definition main_loop :: "session \<Rightarrow> tick list \<Rightarrow> world \<Rightarrow> loop_result" where
  "main_loop s inps w = while_loop (\<lambda>w. True) (iteration s) inps w"

section \<open>Start of the script\<close>

subsection \<open>Command line\<close>

text \<open>
  \<^verbatim>\<open>type=int\<close> hands the second positional argument to Python's \<^verbatim>\<open>int\<close>: surrounding
  white space is dropped, one sign is allowed, and the digits may be grouped by single
  underscores (ASCII input).
\<close>

definition is_space :: "char \<Rightarrow> bool" where
  "is_space c =
     (c \<in> set [CHR '' '', CHR 0x09, CHR 0x0A, CHR 0x0B, CHR 0x0C, CHR 0x0D,
                CHR 0x1C, CHR 0x1D, CHR 0x1E, CHR 0x1F])"

definition strip :: "string \<Rightarrow> string" where
  "strip s = rev (dropWhile is_space (rev (dropWhile is_space s)))"

definition is_digit :: "char \<Rightarrow> bool" where
  "is_digit c = (c \<in> set ''0123456789'')"

definition digit_value :: "char \<Rightarrow> nat" where
  "digit_value c = of_char c - 48"

fun parse_digits :: "nat \<Rightarrow> bool \<Rightarrow> string \<Rightarrow> nat option" where
  "parse_digits acc after_digit [] = (if after_digit then Some acc else None)"
| "parse_digits acc after_digit (c # cs) =
     (if is_digit c then parse_digits (10 * acc + digit_value c) True cs
      else if c = CHR ''_'' \<and> after_digit then parse_digits acc False cs
      else None)"

definition py_int :: "string \<Rightarrow> int option" where
  "py_int s =
     (case strip s of
        [] \<Rightarrow> None
      | c # cs \<Rightarrow>
          if c = CHR ''-'' then map_option (\<lambda>n. - int n) (parse_digits 0 False cs)
          else if c = CHR ''+'' then map_option int (parse_digits 0 False cs)
          else map_option int (parse_digits 0 False (c # cs)))"

record namespace =
  args_experiment_name :: string
  args_image_interval :: int

text \<open>
  Lines 60 to 63, on the two positional arguments: \<open>None\<close> is argparse's exit with
  status 2 when the conversion fails. No other check is made on either argument. (The
  parser declares no option, so argparse reads an argument such as \<^verbatim>\<open>-5\<close> as a
  positional one.)
\<close>

definition parse_args :: "string \<Rightarrow> string \<Rightarrow> namespace option" where
  "parse_args name_arg interval_arg =
     map_option (\<lambda>n. \<lparr>args_experiment_name = name_arg, args_image_interval = n\<rparr>)
       (py_int interval_arg)"

subsection \<open>Session set-up\<close>

datatype camera_init = CameraStarted | Picamera2Error string | OtherInitError string

text \<open>What the environment answers between line 68 and line 97.\<close>

record boot =
  camera :: camera_init
  session_local :: struct_time
  session_epoch :: nat
  script_dir :: string
  git_branch :: proc
  branch_stdout :: string
  git_checkout :: proc

definition new_session :: "namespace \<Rightarrow> boot \<Rightarrow> session" where
  "new_session args b =
     (let out = ''images/'' @ args_experiment_name args @ ''_'' @ strftime (session_local b)
      in \<lparr>experiment_name = args_experiment_name args,
          interval = args_image_interval args,
          output_dir = out,
          metadata_path = os_path_join out ''metadata.csv'',
          readme_path = os_path_join out ''README.md'',
          repo_path = script_dir b\<rparr>)"

definition os_makedirs :: "string \<Rightarrow> world \<Rightarrow> world" where
  "os_makedirs path w = emit (Makedirs path) (w\<lparr>dirs := path # dirs w\<rparr>)"

definition readme_text :: "string \<Rightarrow> string" where
  "readme_text name =
     ''# '' @ name @ '' Images'' @ [newline, newline] @
     ''This directory contains images captured during the experiment.'' @ [newline] @
     ''Each image is named with a timestamp indicating when it was taken.'' @
       [newline, newline] @
     ''## Metadata'' @ [newline, newline] @
     ''Additional metadata about the images can be found in `metadata.csv`.'' @ [newline]"

text \<open>Lines 77 to 97: the directory, the ledger with its header, the README, the branch.\<close>

definition bootstrap :: "session \<Rightarrow> boot \<Rightarrow> world \<Rightarrow> result" where
  "bootstrap s b w0 =
     (let w1 = (if \<not> os_path_exists (output_dir s) w0 then os_makedirs (output_dir s) w0
                else w0);
          w2 = (if \<not> os_path_exists (metadata_path s) w1
                then emit (WriteFile (metadata_path s) (''Timestamp,Image Path'' @ [newline]))
                       (write_file (metadata_path s) (''Timestamp,Image Path'' @ [newline])
                          (session_epoch b) w1)
                else w1);
          w3 = (if \<not> os_path_exists (readme_path s) w2
                then emit (WriteFile (readme_path s) (readme_text (experiment_name s)))
                       (write_file (readme_path s) (readme_text (experiment_name s))
                          (session_epoch b) w2)
                else w2)
      in and_then
           (subprocess_run [''git'', ''branch'', ''--show-current''] (repo_path s)
              (git_branch b) w3)
           (\<lambda>w. subprocess_run [''git'', ''checkout'', strip (branch_stdout b)] (repo_path s)
              (git_checkout b) w))"

subsection \<open>The whole script\<close>

text \<open>
  How far a run has come when the environment's answers are used up: still inside the
  loop, left through \<^verbatim>\<open>exit\<close>, stopped by an exception nobody caught, or past the last
  line of the file.
\<close>

datatype outcome =
    StillRunning world
  | SystemExit nat world
  | Traceback error world
  | ScriptEnd world

definition program :: "string \<Rightarrow> string \<Rightarrow> boot \<Rightarrow> tick list \<Rightarrow> world \<Rightarrow> outcome" where
  "program name_arg interval_arg b inps w =
     (case parse_args name_arg interval_arg of
        None \<Rightarrow> SystemExit 2 w
      | Some args \<Rightarrow>
          (case camera b of
             Picamera2Error msg \<Rightarrow>
               SystemExit 1 (print (''Failed to initialize Picamera2: '' @ msg) w)
           | OtherInitError msg \<Rightarrow> Traceback (CameraError msg) w
           | CameraStarted \<Rightarrow>
               (case bootstrap (new_session args b) b w of
                  Raised e w1 \<Rightarrow> Traceback e w1
                | Ok w1 \<Rightarrow>
                    (case main_loop (new_session args b) inps w1 of
                       LoopRunning w2 \<Rightarrow> StillRunning w2
                     | LoopRaised e w2 \<Rightarrow> Traceback e w2
                     | LoopExit w2 \<Rightarrow>
                         ScriptEnd (print ''Camera stopped.'' (emit CameraStop w2))))))"

section \<open>Reading a run\<close>

text \<open>The paths removed in a trace, in the order of their removal.\<close>

fun removals :: "event list \<Rightarrow> string list" where
  "removals [] = []"
| "removals (Removed path # es) = path # removals es"
| "removals (e # es) = removals es"

definition delete_all :: "string list \<Rightarrow> (string \<times> inode) list \<Rightarrow> (string \<times> inode) list" where
  "delete_all paths fs = fold AList.delete paths fs"

fun world_of :: "result \<Rightarrow> world" where
  "world_of (Ok w) = w"
| "world_of (Raised e w) = w"

fun is_ok :: "result \<Rightarrow> bool" where
  "is_ok (Ok w) = True"
| "is_ok (Raised e w) = False"

text \<open>The usage that the disk of \<open>w\<close> reports when it holds the files \<open>fs\<close>.\<close>

definition usage_exceeds :: "real \<Rightarrow> world \<Rightarrow> (string \<times> inode) list \<Rightarrow> bool" where
  "usage_exceeds threshold w fs =
     (case percentage (disk w fs) of Inl e \<Rightarrow> False | Inr pct \<Rightarrow> pct > threshold)"

definition usage_within :: "real \<Rightarrow> world \<Rightarrow> (string \<times> inode) list \<Rightarrow> bool" where
  "usage_within threshold w fs =
     (case percentage (disk w fs) of Inl e \<Rightarrow> False | Inr pct \<Rightarrow> pct \<le> threshold)"

definition ctime_of :: "world \<Rightarrow> string \<Rightarrow> nat" where
  "ctime_of w path = (case os_path_getctime path w of None \<Rightarrow> 0 | Some t \<Rightarrow> t)"

text \<open>The names a pass of the loop computes at its top (lines 101 and 102).\<close>

definition timestamp_of :: "tick \<Rightarrow> string" where
  "timestamp_of inp = strftime (now_local inp)"

definition image_path_of :: "session \<Rightarrow> tick \<Rightarrow> string" where
  "image_path_of s inp = os_path_join (output_dir s) (timestamp_of inp @ ''.jpg'')"

text \<open>The camera or the image writer raises in this pass.\<close>

definition capture_fails :: "tick \<Rightarrow> bool" where
  "capture_fails inp =
     (case capture_array inp of
        Inl msg \<Rightarrow> True
      | Inr frame \<Rightarrow> (case imwrite inp of ImwriteRaises msg \<Rightarrow> True | _ \<Rightarrow> False))"

text \<open>
  The events of a pass that stops at the \<^verbatim>\<open>except\<close> branch: reading the clock, the camera
  calls, and the printed line. Everything else (ledger, image file, \<^verbatim>\<open>git\<close>, removal,
  Disk Guard, sleep) is not among them.
\<close>

fun quiet :: "event \<Rightarrow> bool" where
  "quiet (Strftime t) = True"
| "quiet CaptureArray = True"
| "quiet Rotate = True"
| "quiet (Printed s) = True"
| "quiet e = False"

text \<open>The events Disk Guard can add to a trace.\<close>

fun disk_guard_event :: "event \<Rightarrow> bool" where
  "disk_guard_event DiskUsage = True"
| "disk_guard_event (Listdir d) = True"
| "disk_guard_event (Printed s) = True"
| "disk_guard_event (Removed p) = True"
| "disk_guard_event e = False"

text \<open>The number of completed sleeps in a trace: one for each pass that reached its bottom.\<close>

fun completed :: "event list \<Rightarrow> nat" where
  "completed [] = 0"
| "completed (Slept n # es) = Suc (completed es)"
| "completed (e # es) = completed es"

definition ledger :: "session \<Rightarrow> world \<Rightarrow> string option" where
  "ledger s w = map_option body (map_of (files w) (metadata_path s))"

text \<open>The content of a file that may be missing, a missing file read as empty.\<close>

definition text_of :: "string option \<Rightarrow> string" where
  "text_of content = (case content of None \<Rightarrow> [] | Some t \<Rightarrow> t)"

fun step_world :: "step \<Rightarrow> world" where
  "step_world (Next w) = w"
| "step_world (Continue w) = w"
| "step_world (Abort e w) = w"

definition four_digit_year :: "tick \<Rightarrow> bool" where
  "four_digit_year inp = (1000 \<le> tm_year (now_local inp) \<and> tm_year (now_local inp) \<le> 9999)"

fun outcome_world :: "outcome \<Rightarrow> world" where
  "outcome_world (StillRunning w) = w"
| "outcome_world (SystemExit status w) = w"
| "outcome_world (Traceback e w) = w"
| "outcome_world (ScriptEnd w) = w"

fun is_running :: "outcome \<Rightarrow> bool" where
  "is_running (StillRunning w) = True"
| "is_running other = False"

text \<open>The lines of a text file; a last line without a newline counts.\<close>

fun lines_of :: "string \<Rightarrow> string list" where
  "lines_of [] = []"
| "lines_of (c # cs) =
     (if c = newline then [] # lines_of cs
      else (case lines_of cs of [] \<Rightarrow> [[c]] | l # ls \<Rightarrow> (c # l) # ls))"

definition unlines :: "string list \<Rightarrow> string" where
  "unlines ls = concat (map (\<lambda>l. l @ [newline]) ls)"

text \<open>
  A line matches \<^verbatim>\<open>^\d{8}-\d{6},.*\.jpg$\<close>: eight digits, a hyphen, six digits, a comma,
  and a rest without a newline that ends in \<^verbatim>\<open>.jpg\<close>.
\<close>

definition is_entry_line :: "string \<Rightarrow> bool" where
  "is_entry_line l =
     (16 \<le> length l
      \<and> list_all is_digit (take 8 l) \<and> l ! 8 = CHR ''-''
      \<and> list_all is_digit (take 6 (drop 9 l)) \<and> l ! 15 = CHR '',''
      \<and> endswith (drop 16 l) ''.jpg'' \<and> newline \<notin> set (drop 16 l))"

section \<open>Sample runs\<close>

definition sample_time :: struct_time where
  "sample_time =
     \<lparr>tm_year = 2024, tm_mon = 3, tm_mday = 9, tm_hour = 7, tm_min = 5, tm_sec = 0\<rparr>"

definition sample_boot :: boot where
  "sample_boot =
     \<lparr>camera = CameraStarted, session_local = sample_time, session_epoch = 100,
      script_dir = ''/home/pi/repo'', git_branch = Returned 0,
      branch_stdout = ''main'' @ [newline], git_checkout = Returned 0\<rparr>"

text \<open>A pass in which everything works except that \<^verbatim>\<open>git push\<close> exits with status 1.\<close>

definition sample_tick :: tick where
  "sample_tick =
     \<lparr>now_local = sample_time\<lparr>tm_sec := 5\<rparr>, now_epoch = 105,
      capture_array = Inr [[1, 2], [3, 4]], imwrite = ImwriteTrue,
      git_add = Returned 0, git_commit = Returned 0, git_push = Returned 1\<rparr>"

text \<open>A pass in which the camera raises.\<close>

definition failing_tick :: tick where
  "failing_tick = sample_tick\<lparr>capture_array := Inl ''camera timeout''\<rparr>"

definition empty_world :: world where
  "empty_world =
     \<lparr>files = [], dirs = [],
      disk = (\<lambda>fs. (100, 10 + length fs, 90 - length fs)),
      codec = (\<lambda>frame. ''JFIF''),
      trace = []\<rparr>"


definition plain :: "nat \<Rightarrow> inode" where
  "plain t = \<lparr>ctime = t, body = [], locked = False\<rparr>"

text \<open>
  A directory with three images, the ledger and the README on a disk that is 85 percent
  full and gains 7 percent with every file removed.
\<close>

definition guard_world :: world where
  "guard_world =
     \<lparr>files = [(''d/b.jpg'', plain 5), (''d/metadata.csv'', plain 1), (''d/a.jpg'', plain 2),
               (''d/README.md'', plain 1), (''d/c.jpg'', plain 9)],
      dirs = [''d''],
      disk = (\<lambda>fs. (100, 50 + 7 * length fs, 50 - 7 * length fs)),
      codec = (\<lambda>frame. ''JFIF''),
      trace = []\<rparr>"

text \<open>The same run after Disk Guard, called with threshold 80, removed the oldest image.\<close>

definition guard_world_after :: world where
  "guard_world_after =
     \<lparr>files = [(''d/b.jpg'', plain 5), (''d/metadata.csv'', plain 1),
               (''d/README.md'', plain 1), (''d/c.jpg'', plain 9)],
      dirs = [''d''],
      disk = (\<lambda>fs. (100, 50 + 7 * length fs, 50 - 7 * length fs)),
      codec = (\<lambda>frame. ''JFIF''),
      trace = [DiskUsage,
               Printed ''Disk usage exceeded threshold. Deleting oldest files...'',
               Listdir ''d'', Removed ''d/a.jpg'', Printed ''Deleted d/a.jpg'', DiskUsage]\<rparr>"


text \<open>The session \<^verbatim>\<open>trial1\<close> with interval 5, and the world right after its set-up.\<close>

definition sample_session :: session where
  "sample_session =
     \<lparr>experiment_name = ''trial1'', interval = 5,
      output_dir = ''images/trial1_20240309-070500'',
      metadata_path = ''images/trial1_20240309-070500/metadata.csv'',
      readme_path = ''images/trial1_20240309-070500/README.md'',
      repo_path = ''/home/pi/repo''\<rparr>"

definition session_world :: world where
  "session_world =
     empty_world
       \<lparr>files := [(''images/trial1_20240309-070500/metadata.csv'',
                   \<lparr>ctime = 100, body = ''Timestamp,Image Path'' @ [newline],
                    locked = False\<rparr>)],
        dirs := [''images/trial1_20240309-070500'']\<rparr>"

text \<open>That world after one pass with \<open>sample_tick\<close>, and after one with \<open>failing_tick\<close>.\<close>

definition session_world_after :: world where
  "session_world_after =
     session_world
       \<lparr>files := [(''images/trial1_20240309-070500/metadata.csv'',
                   \<lparr>ctime = 105,
                    body = ''Timestamp,Image Path'' @ [newline] @
                      ''20240309-070505,images/trial1_20240309-070500/20240309-070505.jpg'' @
                      [newline],
                    locked = False\<rparr>)],
        trace :=
          [Strftime ''20240309-070505'', CaptureArray, Rotate,
           Imwrite ''images/trial1_20240309-070500/20240309-070505.jpg'' ''JFIF'' True,
           AppendFile ''images/trial1_20240309-070500/metadata.csv''
             (''20240309-070505,images/trial1_20240309-070500/20240309-070505.jpg'' @ [newline]),
           Git [''git'', ''add'', ''images/trial1_20240309-070500/20240309-070505.jpg'',
                ''images/trial1_20240309-070500/metadata.csv''] ''/home/pi/repo'',
           Git [''git'', ''commit'', ''-m'', ''Add image and metadata for 20240309-070505'']
             ''/home/pi/repo'',
           Git [''git'', ''push''] ''/home/pi/repo'',
           Printed ''Captured and uploaded image at 20240309-070505'',
           Removed ''images/trial1_20240309-070500/20240309-070505.jpg'',
           Printed
             ''Deleted local image at images/trial1_20240309-070500/20240309-070505.jpg'',
           DiskUsage, Slept 5]\<rparr>"

definition session_world_failed :: world where
  "session_world_failed =
     session_world
       \<lparr>trace := [Strftime ''20240309-070505'',
                   Printed ''Failed to capture or save image: camera timeout'']\<rparr>"



text \<open>A world in which the ledger of the session is already there, empty.\<close>

definition reused_world :: world where
  "reused_world =
     empty_world
       \<lparr>files := [(''images/trial1_20240309-070500/metadata.csv'',
                   \<lparr>ctime = 90, body = [], locked = False\<rparr>)],
        dirs := [''images/trial1_20240309-070500'']\<rparr>"

section \<open>What the primitive calls leave alone\<close>

lemma files_emit [simp]: "files (emit e w) = files w"
  by (simp add: emit_def)

lemma dirs_emit [simp]: "dirs (emit e w) = dirs w"
  by (simp add: emit_def)

lemma disk_emit [simp]: "disk (emit e w) = disk w"
  by (simp add: emit_def)

lemma codec_emit [simp]: "codec (emit e w) = codec w"
  by (simp add: emit_def)

lemma trace_emit [simp]: "trace (emit e w) = trace w @ [e]"
  by (simp add: emit_def)

lemma used_percentage_emit [simp]: "used_percentage (emit e w) = used_percentage w"
  by (simp add: used_percentage_def shutil_disk_usage_def)


section \<open>Disk Guard below the threshold\<close>



section \<open>Sorting and directory entries\<close>

lemma those_keyed:
  "those (map (\<lambda>p. map_option (\<lambda>t. (t, p)) (g p)) ps) = Some keyed \<Longrightarrow>
   keyed = map (\<lambda>p. (case g p of None \<Rightarrow> 0 | Some t \<Rightarrow> t, p)) ps \<and> (\<forall>p\<in>set ps. g p \<noteq> None)"
proof (induction ps arbitrary: keyed)
  case Nil
  then show ?case by simp
next
  case (Cons p ps)
  then show ?case by (auto split: option.splits)
qed

lemma sorted_by_getctime_Some:
  assumes "sorted_by_getctime ps w = Some cs"
  shows "cs = map snd (sort_key fst (map (\<lambda>p. (ctime_of w p, p)) ps))"
    and "\<forall>p\<in>set ps. map_of (files w) p \<noteq> None"
proof -
  from assms obtain keyed where
    k: "those (map (\<lambda>p. map_option (\<lambda>t. (t, p)) (os_path_getctime p w)) ps) = Some keyed"
    and cs: "cs = map snd (sort_key fst keyed)"
    by (auto simp: sorted_by_getctime_def)
  from those_keyed [OF k] have
    keyed: "keyed = map (\<lambda>p. (ctime_of w p, p)) ps" and ex: "\<forall>p\<in>set ps. os_path_getctime p w \<noteq> None"
    by (simp_all add: ctime_of_def)
  show "cs = map snd (sort_key fst (map (\<lambda>p. (ctime_of w p, p)) ps))"
    using cs keyed by simp
  show "\<forall>p\<in>set ps. map_of (files w) p \<noteq> None"
    using ex by (simp add: os_path_getctime_def)
qed

lemma sorted_by_getctime_set:
  "sorted_by_getctime ps w = Some cs \<Longrightarrow> set cs = set ps"
  by (drule sorted_by_getctime_Some(1)) (simp add: image_image)


lemma join_relative:
  "name \<noteq> [] \<Longrightarrow> hd name \<noteq> CHR ''/'' \<Longrightarrow>
   os_path_join directory name = os_path_join directory [] @ name"
  by (simp add: os_path_join_def)

lemma entry_name_Some:
  assumes "entry_name directory path = Some name"
  shows "path = os_path_join directory [] @ name" and "name \<noteq> []" and "CHR ''/'' \<notin> set name"
proof -
  let ?pre = "os_path_join directory []"
  from assms have t: "take (length ?pre) path = ?pre" and d: "name = drop (length ?pre) path"
    and n: "name \<noteq> []" and s: "CHR ''/'' \<notin> set name"
    by (auto simp: entry_name_def Let_def split: if_splits)
  have "path = take (length ?pre) path @ drop (length ?pre) path" by simp
  with t d show "path = ?pre @ name" by simp
  show "name \<noteq> []" by (rule n)
  show "CHR ''/'' \<notin> set name" by (rule s)
qed

lemma join_entry:
  assumes "entry_name directory path = Some name"
  shows "os_path_join directory name = path"
proof -
  note e = entry_name_Some [OF assms]
  from e(2,3) have "hd name \<noteq> CHR ''/''" by (cases name) auto
  with e(2) have "os_path_join directory name = os_path_join directory [] @ name"
    by (rule join_relative)
  with e(1) show ?thesis by simp
qed

lemma entry_name_join:
  assumes "name \<noteq> []" and "CHR ''/'' \<notin> set name"
  shows "entry_name directory (os_path_join directory name) = Some name"
proof -
  from assms have "hd name \<noteq> CHR ''/''" by (cases name) auto
  with assms(1) have "os_path_join directory name = os_path_join directory [] @ name"
    by (rule join_relative)
  with assms show ?thesis by (simp add: entry_name_def Let_def)
qed

section \<open>The eviction loop\<close>

lemma removals_append [simp]: "removals (xs @ ys) = removals xs @ removals ys"
  by (induction xs rule: removals.induct) simp_all

lemma files_print [simp]: "files (print s w) = files w"
  and dirs_print [simp]: "dirs (print s w) = dirs w"
  and disk_print [simp]: "disk (print s w) = disk w"
  and codec_print [simp]: "codec (print s w) = codec w"
  and trace_print [simp]: "trace (print s w) = trace w @ [Printed s]"
  and used_percentage_print [simp]: "used_percentage (print s w) = used_percentage w"
  by (simp_all add: print_def)

lemma os_remove_Ok:
  assumes "os_remove path w = Ok w1"
  shows "files w1 = AList.delete path (files w)" and "trace w1 = trace w @ [Removed path]"
    and "disk w1 = disk w" and "dirs w1 = dirs w" and "codec w1 = codec w"
    and "map_of (files w) path \<noteq> None"
  using assms by (auto simp: os_remove_def split: option.splits if_splits)

lemma os_remove_Raised:
  "os_remove path w = Raised e w1 \<Longrightarrow> w1 = w"
  by (auto simp: os_remove_def split: option.splits if_splits)

lemma used_percentage_alt: "used_percentage w = percentage (disk w (files w))"
  by (simp add: used_percentage_def shutil_disk_usage_def)

lemma delete_all_simps [simp]:
  "delete_all [] fs = fs"
  "delete_all (p # ps) fs = delete_all ps (AList.delete p fs)"
  by (simp_all add: delete_all_def)

lemma evict_effect:
  assumes "used_percentage w = Inr pct"
  shows "\<exists>k\<le>length cs.
           removals (trace (world_of (evict th pct cs w))) = removals (trace w) @ take k cs
         \<and> files (world_of (evict th pct cs w)) = delete_all (take k cs) (files w)
         \<and> disk (world_of (evict th pct cs w)) = disk w
         \<and> dirs (world_of (evict th pct cs w)) = dirs w
         \<and> (\<forall>j<k. usage_exceeds th w (delete_all (take j cs) (files w)))
         \<and> (is_ok (evict th pct cs w) \<longrightarrow>
              k = length cs \<or> usage_within th w (delete_all (take k cs) (files w)))"
  using assms
proof (induction cs arbitrary: w pct)
  case Nil
  then show ?case by simp
next
  case (Cons c cs)
  show ?case
  proof (cases "pct > th")
    case False
    with Cons.prems have "usage_within th w (files w)"
      by (simp add: usage_within_def used_percentage_alt)
    with False show ?thesis by (intro exI [of _ 0]) simp
  next
    case True
    show ?thesis
    proof (cases "os_remove c w")
      case (Raised e w1)
      then have "w1 = w" by (rule os_remove_Raised)
      with True Raised show ?thesis by (intro exI [of _ 0]) simp
    next
      case (Ok w1)
      note r = os_remove_Ok [OF Ok]
      let ?w2 = "emit DiskUsage (print (''Deleted '' @ c) w1)"
      have w2: "files ?w2 = AList.delete c (files w)" "disk ?w2 = disk w" "dirs ?w2 = dirs w"
        "removals (trace ?w2) = removals (trace w) @ [c]"
        using r by simp_all
      have first: "usage_exceeds th w (files w)"
        using True Cons.prems by (simp add: usage_exceeds_def used_percentage_alt)
      show ?thesis
      proof (cases "used_percentage ?w2")
        case (Inl e)
        with True Ok have ev: "evict th pct (c # cs) w = Raised e ?w2" by simp
        show ?thesis
          unfolding ev using w2 first by (intro exI [of _ 1]) simp
      next
        case (Inr pct')
        with True Ok have ev: "evict th pct (c # cs) w = evict th pct' cs ?w2" by simp
        from Cons.IH [OF Inr] obtain k where k: "k \<le> length cs"
          and t: "removals (trace (world_of (evict th pct' cs ?w2))) = removals (trace ?w2) @ take k cs"
          and f: "files (world_of (evict th pct' cs ?w2)) = delete_all (take k cs) (files ?w2)"
          and d: "disk (world_of (evict th pct' cs ?w2)) = disk ?w2"
          and dd: "dirs (world_of (evict th pct' cs ?w2)) = dirs ?w2"
          and ab: "\<forall>j<k. usage_exceeds th ?w2 (delete_all (take j cs) (files ?w2))"
          and en: "is_ok (evict th pct' cs ?w2) \<longrightarrow>
                     k = length cs \<or> usage_within th ?w2 (delete_all (take k cs) (files ?w2))"
          by blast
        have ab': "\<forall>j<Suc k. usage_exceeds th w (delete_all (take j (c # cs)) (files w))"
        proof (intro allI impI)
          fix j assume "j < Suc k"
          show "usage_exceeds th w (delete_all (take j (c # cs)) (files w))"
          proof (cases j)
            case 0
            with first show ?thesis by simp
          next
            case (Suc j')
            with \<open>j < Suc k\<close> ab have "usage_exceeds th ?w2 (delete_all (take j' cs) (files ?w2))"
              by simp
            with Suc w2 show ?thesis by (simp add: usage_exceeds_def)
          qed
        qed
        show ?thesis
          unfolding ev
          using k t f d dd en ab' w2
          by (intro exI [of _ "Suc k"]) (simp add: usage_within_def)
      qed
    qed
  qed
qed

lemma candidates_emit [simp]: "candidates directory (emit e w) = candidates directory w"
  by (simp add: candidates_def os_listdir_def sorted_by_getctime_def os_path_getctime_def)

lemma candidates_print [simp]: "candidates directory (print s w) = candidates directory w"
  by (simp add: print_def)

lemma set_map_filter: "set (List.map_filter f xs) = {y. \<exists>x\<in>set xs. f x = Some y}"
  by (induction xs) (auto split: option.splits)

lemma os_listdir_set:
  assumes "os_listdir directory w = Some names"
  shows "set names = {n. \<exists>p\<in>fst ` set (files w). entry_name directory p = Some n}"
  using assms by (force simp: os_listdir_def set_map_filter split: if_splits)

lemma candidates_set:
  assumes "candidates directory w = Some cs"
  shows "set cs = {p \<in> fst ` set (files w).
                     \<exists>name. entry_name directory p = Some name \<and> endswith name ''.jpg''}"
proof -
  from assms obtain names where l: "os_listdir directory w = Some names"
    and s: "sorted_by_getctime
              (map (os_path_join directory) (filter (\<lambda>f. endswith f ''.jpg'') names)) w = Some cs"
    by (auto simp: candidates_def split: option.splits)
  have "set cs = os_path_join directory ` {n \<in> set names. endswith n ''.jpg''}"
    using sorted_by_getctime_set [OF s] by simp
  also have "\<dots> = {p \<in> fst ` set (files w).
                     \<exists>name. entry_name directory p = Some name \<and> endswith name ''.jpg''}"
    unfolding os_listdir_set [OF l]
  proof (intro set_eqI iffI)
    fix p
    assume "p \<in> os_path_join directory `
              {n \<in> {n. \<exists>p\<in>fst ` set (files w). entry_name directory p = Some n}.
                 endswith n ''.jpg''}"
    then obtain n q where "p = os_path_join directory n" "q \<in> fst ` set (files w)"
      "entry_name directory q = Some n" "endswith n ''.jpg''"
      by blast
    moreover from this have "p = q" by (simp add: join_entry)
    ultimately show "p \<in> {p \<in> fst ` set (files w).
                     \<exists>name. entry_name directory p = Some name \<and> endswith name ''.jpg''}"
      by blast
  next
    fix p
    assume "p \<in> {p \<in> fst ` set (files w).
                     \<exists>name. entry_name directory p = Some name \<and> endswith name ''.jpg''}"
    then obtain n where "p \<in> fst ` set (files w)" "entry_name directory p = Some n"
      "endswith n ''.jpg''"
      by blast
    moreover from this have "p = os_path_join directory n" by (simp add: join_entry)
    ultimately have "n \<in> {n \<in> {n. \<exists>p\<in>fst ` set (files w). entry_name directory p = Some n}.
                 endswith n ''.jpg''}" and "p = os_path_join directory n"
      by blast+
    then show "p \<in> os_path_join directory `
              {n \<in> {n. \<exists>p\<in>fst ` set (files w). entry_name directory p = Some n}.
                 endswith n ''.jpg''}"
      by (rule image_eqI [rotated])
  qed
  finally show ?thesis .
qed


lemma map_of_delete_all:
  "map_of (delete_all ps fs) q = (if q \<in> set ps then None else map_of fs q)"
  by (induction ps arbitrary: fs) (auto simp: delete_conv)

text \<open>Every way in which manage_disk_usage ends, in one statement.\<close>

lemma manage_disk_usage_effect:
  "\<exists>cs k. k \<le> length cs
     \<and> (cs = [] \<or> candidates directory w = Some cs)
     \<and> removals (trace (world_of (manage_disk_usage directory th w)))
         = removals (trace w) @ take k cs
     \<and> files (world_of (manage_disk_usage directory th w)) = delete_all (take k cs) (files w)
     \<and> disk (world_of (manage_disk_usage directory th w)) = disk w
     \<and> dirs (world_of (manage_disk_usage directory th w)) = dirs w"
proof (cases "used_percentage w")
  case (Inl e)
  then show ?thesis
    by (intro exI [of _ "[]"] exI [of _ 0]) (simp add: manage_disk_usage_def)
next
  case (Inr pct)
  show ?thesis
  proof (cases "pct > th")
    case False
    with Inr show ?thesis
      by (intro exI [of _ "[]"] exI [of _ 0]) (simp add: manage_disk_usage_def)
  next
    case True
    let ?w1 = "emit (Listdir directory)
                 (print ''Disk usage exceeded threshold. Deleting oldest files...''
                    (emit DiskUsage w))"
    show ?thesis
    proof (cases "candidates directory w")
      case None
      with Inr True show ?thesis
        by (intro exI [of _ "[]"] exI [of _ 0]) (simp add: manage_disk_usage_def)
    next
      case (Some cs)
      with Inr True have m: "manage_disk_usage directory th w = evict th pct cs ?w1"
        by (simp add: manage_disk_usage_def)
      have "used_percentage ?w1 = Inr pct" using Inr by simp
      from evict_effect [OF this, of cs th] obtain k where "k \<le> length cs"
        "removals (trace (world_of (evict th pct cs ?w1))) = removals (trace ?w1) @ take k cs"
        "files (world_of (evict th pct cs ?w1)) = delete_all (take k cs) (files ?w1)"
        "disk (world_of (evict th pct cs ?w1)) = disk ?w1"
        "dirs (world_of (evict th pct cs ?w1)) = dirs ?w1"
        by blast
      with Some show ?thesis
        unfolding m by (intro exI [of _ cs] exI [of _ k]) simp
    qed
  qed
qed


section \<open>Sample runs of Disk Guard\<close>

lemmas world_simps = manage_disk_usage_def candidates_def os_listdir_def entry_name_def
  os_path_join_def endswith_def sorted_by_getctime_def os_path_getctime_def
  used_percentage_def percentage_def shutil_disk_usage_def os_remove_def emit_def print_def
  Let_def plain_def


lemma guard_world_run: "manage_disk_usage ''d'' 80 guard_world = Ok guard_world_after"
  by (simp add: world_simps guard_world_def guard_world_after_def)


section \<open>Disk Guard above the threshold\<close>



lemma not_jpg: "\<not> endswith ''metadata.csv'' ''.jpg''" "\<not> endswith ''README.md'' ''.jpg''"
  by (simp_all add: endswith_def)

lemma ledger_not_candidate:
  assumes "candidates directory w = Some cs"
  shows "os_path_join directory ''metadata.csv'' \<notin> set cs"
    and "os_path_join directory ''README.md'' \<notin> set cs"
proof -
  have m: "entry_name directory (os_path_join directory ''metadata.csv'') = Some ''metadata.csv''"
    by (rule entry_name_join) simp_all
  have r: "entry_name directory (os_path_join directory ''README.md'') = Some ''README.md''"
    by (rule entry_name_join) simp_all
  show "os_path_join directory ''metadata.csv'' \<notin> set cs"
    unfolding candidates_set [OF assms] using m not_jpg by simp
  show "os_path_join directory ''README.md'' \<notin> set cs"
    unfolding candidates_set [OF assms] using r not_jpg by simp
qed

text \<open>
  C6. However \<open>manage_disk_usage\<close> ends (it returns or it raises), every path it removed
  was a file that is an entry of the given directory under a name ending in \<^verbatim>\<open>.jpg\<close>,
  every other path holds what it held before, and neither \<^verbatim>\<open>metadata.csv\<close> nor
  \<^verbatim>\<open>README.md\<close> of the directory is among the removed paths.
\<close>

theorem disk_guard_removes_only_jpg_entries:
  "\<exists>gone.
      removals (trace (world_of (manage_disk_usage directory threshold w)))
        = removals (trace w) @ gone
    \<and> (\<forall>p\<in>set gone. p \<in> fst ` set (files w)
          \<and> (\<exists>name. entry_name directory p = Some name \<and> endswith name ''.jpg''))
    \<and> (\<forall>p. p \<notin> set gone \<longrightarrow>
          map_of (files (world_of (manage_disk_usage directory threshold w))) p
            = map_of (files w) p)
    \<and> os_path_join directory ''metadata.csv'' \<notin> set gone
    \<and> os_path_join directory ''README.md'' \<notin> set gone"
proof -
  from manage_disk_usage_effect [of directory w threshold] obtain cs k where
    c: "cs = [] \<or> candidates directory w = Some cs"
    and t: "removals (trace (world_of (manage_disk_usage directory threshold w)))
              = removals (trace w) @ take k cs"
    and f: "files (world_of (manage_disk_usage directory threshold w))
              = delete_all (take k cs) (files w)"
    by blast
  have sub: "set (take k cs) \<subseteq> set cs" by (rule set_take_subset)
  have 1: "\<forall>p\<in>set (take k cs). p \<in> fst ` set (files w)
          \<and> (\<exists>name. entry_name directory p = Some name \<and> endswith name ''.jpg'')"
    using c sub by (auto simp: candidates_set)
  have 2: "\<forall>p. p \<notin> set (take k cs) \<longrightarrow>
          map_of (files (world_of (manage_disk_usage directory threshold w))) p
            = map_of (files w) p"
    unfolding f by (simp add: map_of_delete_all)
  have 3: "os_path_join directory ''metadata.csv'' \<notin> set (take k cs)"
    "os_path_join directory ''README.md'' \<notin> set (take k cs)"
    using c sub ledger_not_candidate [of directory w cs] by auto
  from t 1 2 3 show ?thesis by blast
qed

theorem disk_guard_removes_only_jpg_entries_witness:
  "removals (trace (world_of (manage_disk_usage ''d'' 80 guard_world))) = [''d/a.jpg'']
   \<and> entry_name ''d'' ''d/a.jpg'' = Some ''a.jpg'' \<and> endswith ''a.jpg'' ''.jpg''
   \<and> map_of (files (world_of (manage_disk_usage ''d'' 80 guard_world))) ''d/metadata.csv''
       = Some (plain 1)
   \<and> map_of (files (world_of (manage_disk_usage ''d'' 80 guard_world))) ''d/README.md''
       = Some (plain 1)
   \<and> (\<exists>gone.
      removals (trace (world_of (manage_disk_usage ''d'' 80 guard_world)))
        = removals (trace guard_world) @ gone
    \<and> (\<forall>p\<in>set gone. p \<in> fst ` set (files guard_world)
          \<and> (\<exists>name. entry_name ''d'' p = Some name \<and> endswith name ''.jpg''))
    \<and> (\<forall>p. p \<notin> set gone \<longrightarrow>
          map_of (files (world_of (manage_disk_usage ''d'' 80 guard_world))) p
            = map_of (files guard_world) p)
    \<and> os_path_join ''d'' ''metadata.csv'' \<notin> set gone
    \<and> os_path_join ''d'' ''README.md'' \<notin> set gone)"
proof -
  have "removals (trace (world_of (manage_disk_usage ''d'' 80 guard_world))) = [''d/a.jpg'']"
    by (simp add: guard_world_run guard_world_after_def)
  moreover have "entry_name ''d'' ''d/a.jpg'' = Some ''a.jpg''"
    by (simp add: entry_name_def os_path_join_def)
  moreover have "endswith ''a.jpg'' ''.jpg''"
    by (simp add: endswith_def)
  moreover have
    "map_of (files (world_of (manage_disk_usage ''d'' 80 guard_world))) ''d/metadata.csv''
       = Some (plain 1)"
    "map_of (files (world_of (manage_disk_usage ''d'' 80 guard_world))) ''d/README.md''
       = Some (plain 1)"
    by (simp_all add: guard_world_run guard_world_after_def)
  ultimately show ?thesis
    using disk_guard_removes_only_jpg_entries [of "''d''" 80 guard_world] by blast
qed

section \<open>One pass of the capture loop\<close>

lemma subprocess_run_Ok:
  "subprocess_run argv cwd p w = Ok w' \<Longrightarrow> w' = emit (Git argv cwd) w \<and> (\<exists>status. p = Returned status)"
  by (auto simp: subprocess_run_def split: proc.splits)

lemma and_then_Ok:
  "and_then r k = Ok w' \<Longrightarrow> \<exists>w1. r = Ok w1 \<and> k w1 = Ok w'"
  by (cases r) simp_all

lemma time_sleep_Ok:
  "time_sleep secs w = Ok w' \<Longrightarrow> w' = emit (Slept secs) w \<and> 0 \<le> secs"
  by (auto simp: time_sleep_def split: if_splits)

text \<open>The world in which the script calls os.remove on the image it has just recorded.\<close>

lemma record_sync_clean_Ok:
  assumes "record_sync_clean s ts path inp w = Ok w'"
  shows "\<exists>w_rm w_guard.
           os_remove path
             (print (''Captured and uploaded image at '' @ ts)
                (emit (Git [''git'', ''push''] (repo_path s))
                   (emit (Git [''git'', ''commit'', ''-m'', ''Add image and metadata for '' @ ts]
                            (repo_path s))
                      (emit (Git [''git'', ''add'', path, metadata_path s] (repo_path s))
                         (append_file (metadata_path s) (ts @ '','' @ path @ [newline])
                            (now_epoch inp) w))))) = Ok w_rm
         \<and> manage_disk_usage (output_dir s) 80 (print (''Deleted local image at '' @ path) w_rm)
             = Ok w_guard
         \<and> w' = emit (Slept (interval s)) w_guard \<and> 0 \<le> interval s"
proof -
  from assms obtain w1 w2 w3 w4 w5 where
    1: "subprocess_run [''git'', ''add'', path, metadata_path s] (repo_path s) (git_add inp)
          (append_file (metadata_path s) (ts @ '','' @ path @ [newline]) (now_epoch inp) w) = Ok w1"
    and 2: "subprocess_run [''git'', ''commit'', ''-m'', ''Add image and metadata for '' @ ts]
          (repo_path s) (git_commit inp) w1 = Ok w2"
    and 3: "subprocess_run [''git'', ''push''] (repo_path s) (git_push inp) w2 = Ok w3"
    and 4: "os_remove path (print (''Captured and uploaded image at '' @ ts) w3) = Ok w4"
    and 5: "manage_disk_usage (output_dir s) 80 (print (''Deleted local image at '' @ path) w4)
          = Ok w5"
    and 6: "time_sleep (interval s) w5 = Ok w'"
    unfolding record_sync_clean_def by (blast dest!: and_then_Ok)
  from 1 2 3 4 5 6 show ?thesis
    by (auto dest!: subprocess_run_Ok time_sleep_Ok)
qed

lemma capture_and_save_Ok:
  assumes "capture_and_save path inp w = Ok w'"
  shows "\<exists>frame written.
           capture_array inp = Inr frame
         \<and> trace w' = trace w @ [CaptureArray, Rotate,
                                  Imwrite path (codec w (cv2_rotate_90_clockwise frame)) written]
         \<and> dirs w' = dirs w \<and> disk w' = disk w \<and> codec w' = codec w
         \<and> (\<forall>q. q \<noteq> path \<longrightarrow> map_of (files w') q = map_of (files w) q)"
  using assms
  by (auto simp: capture_and_save_def cv2_imwrite_def write_file_def update_conv
      split: sum.splits imwrite_outcome.splits)

lemma capture_and_save_Raised:
  assumes "capture_and_save path inp w = Raised e w'"
  shows "capture_fails inp \<and> files w' = files w \<and> dirs w' = dirs w
         \<and> (\<exists>evs. trace w' = trace w @ evs \<and> list_all quiet evs)"
  using assms
  by (auto simp: capture_and_save_def cv2_imwrite_def capture_fails_def
      split: sum.splits imwrite_outcome.splits)

lemma capture_fails_Raised:
  assumes "capture_fails inp"
  shows "\<exists>e w'. capture_and_save path inp w = Raised e w'"
  using assms
  by (auto simp: capture_and_save_def cv2_imwrite_def capture_fails_def
      split: sum.splits imwrite_outcome.splits)

lemma iteration_Next:
  assumes "iteration s inp w = Next w'"
  shows "\<exists>w_save w_rm w_guard.
           capture_and_save (image_path_of s inp) inp (emit (Strftime (timestamp_of inp)) w)
             = Ok w_save
         \<and> os_remove (image_path_of s inp)
             (print (''Captured and uploaded image at '' @ timestamp_of inp)
                (emit (Git [''git'', ''push''] (repo_path s))
                   (emit (Git [''git'', ''commit'', ''-m'',
                               ''Add image and metadata for '' @ timestamp_of inp] (repo_path s))
                      (emit (Git [''git'', ''add'', image_path_of s inp, metadata_path s]
                               (repo_path s))
                         (append_file (metadata_path s)
                            (timestamp_of inp @ '','' @ image_path_of s inp @ [newline])
                            (now_epoch inp) w_save))))) = Ok w_rm
         \<and> manage_disk_usage (output_dir s) 80
             (print (''Deleted local image at '' @ image_path_of s inp) w_rm) = Ok w_guard
         \<and> w' = emit (Slept (interval s)) w_guard \<and> 0 \<le> interval s"
proof -
  from assms obtain w_save where
    c: "capture_and_save (image_path_of s inp) inp (emit (Strftime (timestamp_of inp)) w)
          = Ok w_save"
    and r: "record_sync_clean s (timestamp_of inp) (image_path_of s inp) inp w_save = Ok w'"
    by (auto simp: iteration_def Let_def image_path_of_def timestamp_of_def
        split: result.splits)
  from record_sync_clean_Ok [OF r] c show ?thesis by blast
qed

lemma trace_append_file [simp]:
  "trace (append_file path text epoch w) = trace w @ [AppendFile path text]"
  by (simp add: append_file_def)

lemma iteration_Next_trace:
  assumes "iteration s inp w = Next w'"
  shows "\<exists>frame written w_mid w_guard.
           capture_array inp = Inr frame
         \<and> trace w_mid = trace w @
             [Strftime (timestamp_of inp), CaptureArray, Rotate,
              Imwrite (image_path_of s inp) (codec w (cv2_rotate_90_clockwise frame)) written,
              AppendFile (metadata_path s)
                (timestamp_of inp @ '','' @ image_path_of s inp @ [newline]),
              Git [''git'', ''add'', image_path_of s inp, metadata_path s] (repo_path s),
              Git [''git'', ''commit'', ''-m'',
                   ''Add image and metadata for '' @ timestamp_of inp] (repo_path s),
              Git [''git'', ''push''] (repo_path s),
              Printed (''Captured and uploaded image at '' @ timestamp_of inp),
              Removed (image_path_of s inp),
              Printed (''Deleted local image at '' @ image_path_of s inp)]
         \<and> manage_disk_usage (output_dir s) 80 w_mid = Ok w_guard
         \<and> trace w' = trace w_guard @ [Slept (interval s)]"
proof -
  from iteration_Next [OF assms] obtain w_save w_rm w_guard where
    c: "capture_and_save (image_path_of s inp) inp (emit (Strftime (timestamp_of inp)) w)
          = Ok w_save"
    and r: "os_remove (image_path_of s inp)
             (print (''Captured and uploaded image at '' @ timestamp_of inp)
                (emit (Git [''git'', ''push''] (repo_path s))
                   (emit (Git [''git'', ''commit'', ''-m'',
                               ''Add image and metadata for '' @ timestamp_of inp] (repo_path s))
                      (emit (Git [''git'', ''add'', image_path_of s inp, metadata_path s]
                               (repo_path s))
                         (append_file (metadata_path s)
                            (timestamp_of inp @ '','' @ image_path_of s inp @ [newline])
                            (now_epoch inp) w_save))))) = Ok w_rm"
    and g: "manage_disk_usage (output_dir s) 80
             (print (''Deleted local image at '' @ image_path_of s inp) w_rm) = Ok w_guard"
    and e: "w' = emit (Slept (interval s)) w_guard"
    by blast
  from capture_and_save_Ok [OF c] obtain frame written where
    f: "capture_array inp = Inr frame"
    and t: "trace w_save = trace w @ [Strftime (timestamp_of inp), CaptureArray, Rotate,
              Imwrite (image_path_of s inp) (codec w (cv2_rotate_90_clockwise frame)) written]"
    by auto
  let ?w_mid = "print (''Deleted local image at '' @ image_path_of s inp) w_rm"
  have "trace ?w_mid = trace w @
             [Strftime (timestamp_of inp), CaptureArray, Rotate,
              Imwrite (image_path_of s inp) (codec w (cv2_rotate_90_clockwise frame)) written,
              AppendFile (metadata_path s)
                (timestamp_of inp @ '','' @ image_path_of s inp @ [newline]),
              Git [''git'', ''add'', image_path_of s inp, metadata_path s] (repo_path s),
              Git [''git'', ''commit'', ''-m'',
                   ''Add image and metadata for '' @ timestamp_of inp] (repo_path s),
              Git [''git'', ''push''] (repo_path s),
              Printed (''Captured and uploaded image at '' @ timestamp_of inp),
              Removed (image_path_of s inp),
              Printed (''Deleted local image at '' @ image_path_of s inp)]"
    using os_remove_Ok(2) [OF r] t by simp
  with f g e show ?thesis by (intro exI [of _ frame] exI [of _ written] exI [of _ ?w_mid] exI [of _ w_guard]) simp
qed

lemma main_loop_Nil [simp]: "main_loop s [] w = LoopRunning w"
  by (simp add: main_loop_def)

lemma main_loop_Cons:
  "main_loop s (inp # inps) w =
     (case iteration s inp w of
        Next w' \<Rightarrow> main_loop s inps w'
      | Continue w' \<Rightarrow> main_loop s inps w'
      | Abort e w' \<Rightarrow> LoopRaised e w')"
  by (cases "iteration s inp w") (simp_all add: main_loop_def)

lemma iteration_git_status:
  assumes "git_add inp = Returned a" and "git_commit inp = Returned b"
    and "git_push inp = Returned c"
  shows "iteration s inp w =
         iteration s (inp\<lparr>git_add := Returned 0, git_commit := Returned 0,
                           git_push := Returned 0\<rparr>) w"
  using assms
  by (simp add: iteration_def record_sync_clean_def subprocess_run_def capture_and_save_def
      Let_def cong: sum.case_cong result.case_cong)

lemma iteration_Next_image_gone:
  assumes "iteration s inp w = Next w'"
  shows "map_of (files w') (image_path_of s inp) = None"
proof -
  from iteration_Next [OF assms] obtain w0 w_rm w_guard where
    r: "os_remove (image_path_of s inp) w0 = Ok w_rm"
    and g: "manage_disk_usage (output_dir s) 80
             (print (''Deleted local image at '' @ image_path_of s inp) w_rm) = Ok w_guard"
    and e: "w' = emit (Slept (interval s)) w_guard"
    by blast
  let ?w_mid = "print (''Deleted local image at '' @ image_path_of s inp) w_rm"
  have gone: "map_of (files ?w_mid) (image_path_of s inp) = None"
    using os_remove_Ok(1) [OF r] by (simp add: delete_conv)
  from manage_disk_usage_effect [of "output_dir s" ?w_mid 80] g obtain cs k where
    "files w_guard = delete_all (take k cs) (files ?w_mid)"
    by auto
  with gone e show ?thesis by (simp add: map_of_delete_all)
qed

lemma evict_trace:
  "\<exists>evs. trace (world_of (evict th pct cs w)) = trace w @ evs \<and> list_all disk_guard_event evs"
proof (induction cs arbitrary: w pct)
  case Nil
  then show ?case by simp
next
  case (Cons c cs)
  show ?case
  proof (cases "pct > th")
    case False
    then show ?thesis by simp
  next
    case True
    show ?thesis
    proof (cases "os_remove c w")
      case (Raised e w1)
      with True os_remove_Raised [OF Raised] show ?thesis by simp
    next
      case (Ok w1)
      let ?w2 = "emit DiskUsage (print (''Deleted '' @ c) w1)"
      have t2: "trace ?w2 = trace w @ [Removed c, Printed (''Deleted '' @ c), DiskUsage]"
        using os_remove_Ok(2) [OF Ok] by simp
      show ?thesis
      proof (cases "used_percentage ?w2")
        case (Inl e)
        with True Ok have "evict th pct (c # cs) w = Raised e ?w2" by simp
        with t2 show ?thesis by simp
      next
        case (Inr pct')
        with True Ok have ev: "evict th pct (c # cs) w = evict th pct' cs ?w2" by simp
        from Cons.IH [of pct' ?w2] obtain evs where
          "trace (world_of (evict th pct' cs ?w2)) = trace ?w2 @ evs" "list_all disk_guard_event evs"
          by blast
        with t2 show ?thesis
          unfolding ev
          by (intro exI [of _ "[Removed c, Printed (''Deleted '' @ c), DiskUsage] @ evs"]) simp
      qed
    qed
  qed
qed

lemma manage_disk_usage_trace:
  "\<exists>evs. trace (world_of (manage_disk_usage directory th w)) = trace w @ evs
         \<and> list_all disk_guard_event evs"
proof (cases "used_percentage w")
  case (Inl e)
  then show ?thesis by (simp add: manage_disk_usage_def)
next
  case (Inr pct)
  show ?thesis
  proof (cases "pct > th")
    case False
    with Inr show ?thesis by (simp add: manage_disk_usage_def)
  next
    case True
    let ?w1 = "emit (Listdir directory)
                 (print ''Disk usage exceeded threshold. Deleting oldest files...''
                    (emit DiskUsage w))"
    show ?thesis
    proof (cases "candidates directory w")
      case None
      with Inr True show ?thesis by (simp add: manage_disk_usage_def)
    next
      case (Some cs)
      with Inr True have m: "manage_disk_usage directory th w = evict th pct cs ?w1"
        by (simp add: manage_disk_usage_def)
      from evict_trace [of th pct cs ?w1] obtain evs where
        "trace (world_of (evict th pct cs ?w1)) = trace ?w1 @ evs" "list_all disk_guard_event evs"
        by blast
      then show ?thesis
        unfolding m
        by (intro exI [of _ "[DiskUsage,
              Printed ''Disk usage exceeded threshold. Deleting oldest files...'',
              Listdir directory] @ evs"]) simp
    qed
  qed
qed

lemma iteration_Next_removed:
  assumes "iteration s inp w = Next w'"
  shows "Removed (image_path_of s inp) \<in> set (trace w')"
proof -
  from iteration_Next_trace [OF assms] obtain w_mid w_guard evs where
    "trace w_mid = trace w @ evs" "Removed (image_path_of s inp) \<in> set evs"
    and g: "manage_disk_usage (output_dir s) 80 w_mid = Ok w_guard"
    and t: "trace w' = trace w_guard @ [Slept (interval s)]"
    by fastforce
  then have m: "Removed (image_path_of s inp) \<in> set (trace w_mid)" by simp
  from manage_disk_usage_trace [of "output_dir s" 80 w_mid] g obtain evs where
    "trace w_guard = trace w_mid @ evs" by auto
  with m t show ?thesis by simp
qed

text \<open>
  C2. When the three \<^verbatim>\<open>git\<close> processes of a pass return, whatever their exit statuses,
  the pass runs exactly as it does when all three exit with status 0: the statuses are
  never read. If the pass reaches its bottom, the image file has been removed and does not
  exist afterwards.
\<close>

theorem local_image_removed_whatever_sync_returns:
  assumes "git_add inp = Returned a" and "git_commit inp = Returned b"
    and "git_push inp = Returned c"
  shows "iteration s inp w =
           iteration s (inp\<lparr>git_add := Returned 0, git_commit := Returned 0,
                             git_push := Returned 0\<rparr>) w
         \<and> (iteration s inp w = Next w' \<longrightarrow>
               map_of (files w') (image_path_of s inp) = None
             \<and> Removed (image_path_of s inp) \<in> set (trace w'))"
  using iteration_git_status [OF assms] iteration_Next_image_gone iteration_Next_removed
  by blast

lemma iteration_capture_fails:
  assumes "capture_fails inp"
  shows "\<exists>w' evs. iteration s inp w = Continue w'
           \<and> files w' = files w \<and> dirs w' = dirs w \<and> disk w' = disk w \<and> codec w' = codec w
           \<and> trace w' = trace w @ evs \<and> list_all quiet evs
           \<and> (\<exists>msg. Printed (''Failed to capture or save image: '' @ msg) \<in> set evs)"
  using assms
  by (auto simp: iteration_def capture_and_save_def cv2_imwrite_def capture_fails_def
      split: sum.splits imwrite_outcome.splits)

lemma main_loop_failed_prefix:
  assumes "list_all capture_fails failed"
  shows "\<exists>w' evs. main_loop s (failed @ inps) w = main_loop s inps w'
           \<and> files w' = files w \<and> dirs w' = dirs w \<and> disk w' = disk w \<and> codec w' = codec w
           \<and> trace w' = trace w @ evs \<and> list_all quiet evs"
  using assms
proof (induction failed arbitrary: w)
  case Nil
  show ?case by (intro exI [of _ w] exI [of _ "[]"]) simp
next
  case (Cons inp failed)
  from Cons.prems have f: "capture_fails inp" and r: "list_all capture_fails failed" by simp_all
  from iteration_capture_fails [OF f, of s w] obtain w1 evs1 where
    i: "iteration s inp w = Continue w1"
    and s1: "files w1 = files w" "dirs w1 = dirs w" "disk w1 = disk w" "codec w1 = codec w"
    and t1: "trace w1 = trace w @ evs1" "list_all quiet evs1"
    by blast
  from Cons.IH [OF r, of w1] obtain w2 evs2 where
    l: "main_loop s (failed @ inps) w1 = main_loop s inps w2"
    and s2: "files w2 = files w1" "dirs w2 = dirs w1" "disk w2 = disk w1" "codec w2 = codec w1"
    and t2: "trace w2 = trace w1 @ evs2" "list_all quiet evs2"
    by blast
  have "main_loop s ((inp # failed) @ inps) w = main_loop s inps w2"
    using i l by (simp add: main_loop_Cons)
  with s1 s2 t1 t2 show ?case
    by (intro exI [of _ w2] exI [of _ "evs1 @ evs2"]) simp
qed

text \<open>
  C3. A pass in which the camera or the image writer raises ends at \<^verbatim>\<open>continue\<close>: it
  prints the failure, leaves the files and directories as they were, and adds nothing to
  the trace but the clock reading, the camera calls and the printed line (no ledger line,
  no \<^verbatim>\<open>git\<close> call, no removal, no Disk Guard, no sleep); the loop goes on with the next
  pass at once. The same holds for any number of failing passes in a row.
\<close>

theorem failed_capture_restarts_pass:
  assumes "capture_fails inp" and "list_all capture_fails failed"
  shows "(\<exists>w' evs. iteration s inp w = Continue w'
            \<and> files w' = files w \<and> dirs w' = dirs w
            \<and> trace w' = trace w @ evs \<and> list_all quiet evs
            \<and> (\<exists>msg. Printed (''Failed to capture or save image: '' @ msg) \<in> set evs)
            \<and> main_loop s (inp # inps) w = main_loop s inps w')
       \<and> (\<exists>w' evs. main_loop s (failed @ inps) w = main_loop s inps w'
            \<and> files w' = files w \<and> dirs w' = dirs w
            \<and> trace w' = trace w @ evs \<and> list_all quiet evs)"
proof -
  from iteration_capture_fails [OF assms(1), of s w] obtain w' evs where
    "iteration s inp w = Continue w'" "files w' = files w" "dirs w' = dirs w"
    "trace w' = trace w @ evs" "list_all quiet evs"
    "\<exists>msg. Printed (''Failed to capture or save image: '' @ msg) \<in> set evs"
    by blast
  moreover from this have "main_loop s (inp # inps) w = main_loop s inps w'"
    by (simp add: main_loop_Cons)
  ultimately have 1: "\<exists>w' evs. iteration s inp w = Continue w'
            \<and> files w' = files w \<and> dirs w' = dirs w
            \<and> trace w' = trace w @ evs \<and> list_all quiet evs
            \<and> (\<exists>msg. Printed (''Failed to capture or save image: '' @ msg) \<in> set evs)
            \<and> main_loop s (inp # inps) w = main_loop s inps w'"
    by blast
  from main_loop_failed_prefix [OF assms(2), of s inps w]
  have 2: "\<exists>w' evs. main_loop s (failed @ inps) w = main_loop s inps w'
            \<and> files w' = files w \<and> dirs w' = dirs w
            \<and> trace w' = trace w @ evs \<and> list_all quiet evs"
    by blast
  from 1 2 show ?thesis by blast
qed

section \<open>Sample passes\<close>

lemmas pass_simps = iteration_def capture_and_save_def cv2_imwrite_def write_file_def
  append_file_def record_sync_clean_def subprocess_run_def time_sleep_def strftime_def
  two_digits_def digit_char_def decimal.simps cv2_rotate_90_clockwise_def

lemmas sample_simps = sample_session_def sample_tick_def failing_tick_def sample_time_def
  session_world_def session_world_after_def session_world_failed_def empty_world_def
  sample_boot_def

lemma sample_timestamp: "timestamp_of sample_tick = ''20240309-070505''"
  by (simp add: timestamp_of_def strftime_def two_digits_def digit_char_def decimal.simps
      sample_simps)

lemma sample_image_path:
  "image_path_of sample_session sample_tick
     = ''images/trial1_20240309-070500/20240309-070505.jpg''"
  by (simp add: image_path_of_def sample_timestamp os_path_join_def sample_session_def)

lemma sample_pass: "iteration sample_session sample_tick session_world = Next session_world_after"
  by (simp add: pass_simps world_simps sample_simps)

lemma failing_pass:
  "iteration sample_session failing_tick session_world = Continue session_world_failed"
  by (simp add: pass_simps world_simps sample_simps)

section \<open>The order of a pass\<close>



theorem local_image_removed_witness:
  "git_add sample_tick = Returned 0 \<and> git_commit sample_tick = Returned 0
   \<and> git_push sample_tick = Returned 1
   \<and> iteration sample_session sample_tick session_world = Next session_world_after
   \<and> iteration sample_session sample_tick session_world =
       iteration sample_session
         (sample_tick\<lparr>git_add := Returned 0, git_commit := Returned 0,
                       git_push := Returned 0\<rparr>) session_world
   \<and> map_of (files session_world_after) (image_path_of sample_session sample_tick) = None
   \<and> Removed (image_path_of sample_session sample_tick) \<in> set (trace session_world_after)"
proof -
  have g: "git_add sample_tick = Returned 0" "git_commit sample_tick = Returned 0"
    "git_push sample_tick = Returned 1"
    by (simp_all add: sample_tick_def)
  show ?thesis
    using local_image_removed_whatever_sync_returns
            [OF g, of sample_session session_world session_world_after]
      sample_pass g
    by simp
qed

theorem failed_capture_restarts_pass_witness:
  "capture_fails failing_tick \<and> list_all capture_fails [failing_tick, failing_tick]
   \<and> iteration sample_session failing_tick session_world = Continue session_world_failed
   \<and> (\<exists>w' evs. iteration sample_session failing_tick session_world = Continue w'
            \<and> files w' = files session_world \<and> dirs w' = dirs session_world
            \<and> trace w' = trace session_world @ evs \<and> list_all quiet evs
            \<and> (\<exists>msg. Printed (''Failed to capture or save image: '' @ msg) \<in> set evs)
            \<and> main_loop sample_session (failing_tick # [sample_tick]) session_world
                = main_loop sample_session [sample_tick] w')
   \<and> (\<exists>w' evs. main_loop sample_session ([failing_tick, failing_tick] @ [sample_tick])
                   session_world
                = main_loop sample_session [sample_tick] w'
            \<and> files w' = files session_world \<and> dirs w' = dirs session_world
            \<and> trace w' = trace session_world @ evs \<and> list_all quiet evs)"
proof -
  have f: "capture_fails failing_tick"
    by (simp add: capture_fails_def failing_tick_def)
  then have l: "list_all capture_fails [failing_tick, failing_tick]" by simp
  show ?thesis
    using failed_capture_restarts_pass
            [OF f l, of sample_session session_world "[sample_tick]"]
      f l failing_pass
    by blast
qed

section \<open>A deletion that fails\<close>










section \<open>Parsing the interval\<close>

lemma digit_char_cases:
  "m < 10 \<Longrightarrow> m = 0 \<or> m = 1 \<or> m = 2 \<or> m = 3 \<or> m = 4 \<or> m = 5 \<or> m = 6 \<or> m = 7 \<or> m = 8 \<or> m = (9::nat)"
  by arith

lemma is_digit_digit_char [simp]: "is_digit (digit_char n)"
proof -
  have "n mod 10 < 10" by simp
  from digit_char_cases [OF this] show ?thesis
    by (auto simp: is_digit_def digit_char_def)
qed

lemma digit_value_digit_char [simp]: "digit_value (digit_char n) = n mod 10"
proof -
  have "n mod 10 < 10" by simp
  from digit_char_cases [OF this] show ?thesis
    by (auto simp: digit_value_def digit_char_def)
qed


lemma decimal_digits: "list_all is_digit (decimal n)"
  by (induction n rule: decimal.induct) (subst decimal.simps, simp)









section \<open>A negative interval\<close>


lemma and_then_Ok_iff:
  "and_then r k = Ok w' \<longleftrightarrow> (\<exists>w1. r = Ok w1 \<and> k w1 = Ok w')"
  by (cases r) auto










lemma while_True_never_exits:
  "while_loop (\<lambda>w. True) loop_body inps w \<noteq> LoopExit w'"
  by (induction inps arbitrary: w) (auto split: step.splits)

text \<open>
  C10. The loop \<^verbatim>\<open>while True:\<close> never ends normally: however long the run, it is still
  running or it has ended with an exception. So no run of the script gets past the loop to
  the lines that stop the camera and print the last message.
\<close>

theorem camera_stop_unreachable:
  "main_loop s inps w \<noteq> LoopExit w'
   \<and> ((\<exists>w1. main_loop s inps w = LoopRunning w1) \<or> (\<exists>e w1. main_loop s inps w = LoopRaised e w1))
   \<and> program name_arg interval_arg b inps w \<noteq> ScriptEnd w'"
proof -
  have 1: "main_loop s inps w \<noteq> LoopExit w'" for s w w'
    by (simp add: main_loop_def while_True_never_exits)
  then have 2: "(\<exists>w1. main_loop s inps w = LoopRunning w1)
      \<or> (\<exists>e w1. main_loop s inps w = LoopRaised e w1)"
    by (cases "main_loop s inps w") auto
  have 3: "program name_arg interval_arg b inps w \<noteq> ScriptEnd w'"
    using 1
    by (auto simp: program_def split: option.splits camera_init.splits result.splits
        loop_result.splits)
  from 1 2 3 show ?thesis by blast
qed

section \<open>The ledger\<close>

subsection \<open>Paths that differ\<close>

lemma last_join_jpg: "last (os_path_join a (x @ ''.jpg'')) = CHR ''g''"
  by (simp add: os_path_join_def)

lemma last_join_metadata: "last (os_path_join a ''metadata.csv'') = CHR ''v''"
  by (simp add: os_path_join_def)

lemma last_join_readme: "last (os_path_join a ''README.md'') = CHR ''d''"
  by (simp add: os_path_join_def)

lemma image_path_not_ledger:
  "image_path_of s inp \<noteq> os_path_join (output_dir s) ''metadata.csv''"
proof
  assume "image_path_of s inp = os_path_join (output_dir s) ''metadata.csv''"
  then have "last (image_path_of s inp) = last (os_path_join (output_dir s) ''metadata.csv'')"
    by simp
  then show False
    unfolding image_path_of_def last_join_jpg last_join_metadata by simp
qed

lemma readme_not_ledger: "os_path_join a ''README.md'' \<noteq> os_path_join a ''metadata.csv''"
proof
  assume "os_path_join a ''README.md'' = os_path_join a ''metadata.csv''"
  then have "last (os_path_join a ''README.md'') = last (os_path_join a ''metadata.csv'')"
    by simp
  then show False
    unfolding last_join_readme last_join_metadata by simp
qed

lemma ledger_not_dir: "os_path_join a ''metadata.csv'' \<noteq> a"
proof
  assume "os_path_join a ''metadata.csv'' = a"
  then have "length (os_path_join a ''metadata.csv'') = length a" by simp
  then show False by (simp add: os_path_join_def split: if_splits)
qed

lemma manage_keeps_ledger:
  "map_of (files (world_of (manage_disk_usage directory th w)))
     (os_path_join directory ''metadata.csv'')
   = map_of (files w) (os_path_join directory ''metadata.csv'')"
proof -
  from manage_disk_usage_effect [of directory w th] obtain cs k where
    c: "cs = [] \<or> candidates directory w = Some cs"
    and f: "files (world_of (manage_disk_usage directory th w))
              = delete_all (take k cs) (files w)"
    by blast
  have "set (take k cs) \<subseteq> set cs" by (rule set_take_subset)
  with c ledger_not_candidate(1) [of directory w cs]
  have "os_path_join directory ''metadata.csv'' \<notin> set (take k cs)" by auto
  then show ?thesis unfolding f by (simp add: map_of_delete_all)
qed

lemma completed_append [simp]: "completed (xs @ ys) = completed xs + completed ys"
  by (induction xs rule: completed.induct) simp_all

lemma completed_disk_guard: "list_all disk_guard_event evs \<Longrightarrow> completed evs = 0"
  by (induction evs rule: completed.induct) simp_all

lemma completed_quiet: "list_all quiet evs \<Longrightarrow> completed evs = 0"
  by (induction evs rule: completed.induct) simp_all

lemma ledger_emit [simp]: "ledger s (emit e w) = ledger s w"
  by (simp add: ledger_def)

lemma ledger_print [simp]: "ledger s (print t w) = ledger s w"
  by (simp add: ledger_def)

lemma ledger_append_file:
  "ledger s (append_file (metadata_path s) text epoch w) = Some (text_of (ledger s w) @ text)"
  by (simp add: ledger_def append_file_def update_conv text_of_def split: option.splits)

lemma ledger_files_cong:
  "map_of (files w') (metadata_path s) = map_of (files w) (metadata_path s) \<Longrightarrow>
   ledger s w' = ledger s w"
  by (simp add: ledger_def)

subsection \<open>The ledger through one pass\<close>

lemma subprocess_run_Raised: "subprocess_run argv cwd p w = Raised e w' \<Longrightarrow> w' = w"
  by (auto simp: subprocess_run_def split: proc.splits)

lemma time_sleep_Raised: "time_sleep secs w = Raised e w' \<Longrightarrow> w' = w"
  by (auto simp: time_sleep_def split: if_splits)

lemma os_remove_keeps:
  assumes "os_remove path w = Ok w'" and "q \<noteq> path"
  shows "map_of (files w') q = map_of (files w) q"
  using os_remove_Ok(1) [OF assms(1)] assms(2) by (simp add: delete_conv)

text \<open>The ledger after lines 112 to 126, however they end.\<close>

lemma record_sync_clean_ledger:
  assumes wf: "metadata_path s = os_path_join (output_dir s) ''metadata.csv''"
    and ne: "path \<noteq> metadata_path s"
  shows "ledger s (world_of (record_sync_clean s ts path inp w))
           = Some (text_of (ledger s w) @ ts @ '','' @ path @ [newline])"
proof -
  let ?wa = "append_file (metadata_path s) (ts @ '','' @ path @ [newline]) (now_epoch inp) w"
  let ?L = "Some (text_of (ledger s w) @ ts @ '','' @ path @ [newline])"
  have a: "ledger s ?wa = ?L" by (rule ledger_append_file)
  show ?thesis
  proof (cases "subprocess_run [''git'', ''add'', path, metadata_path s] (repo_path s)
                  (git_add inp) ?wa")
    case (Raised e w1)
    with subprocess_run_Raised [OF Raised] a show ?thesis
      by (simp add: record_sync_clean_def)
  next
    case 1: (Ok w1)
    from subprocess_run_Ok [OF 1] a have l1: "ledger s w1 = ?L" by simp
    show ?thesis
    proof (cases "subprocess_run [''git'', ''commit'', ''-m'', ''Add image and metadata for '' @ ts]
                    (repo_path s) (git_commit inp) w1")
      case (Raised e w2)
      with subprocess_run_Raised [OF Raised] 1 l1 show ?thesis
        by (simp add: record_sync_clean_def)
    next
      case 2: (Ok w2)
      from subprocess_run_Ok [OF 2] l1 have l2: "ledger s w2 = ?L" by simp
      show ?thesis
      proof (cases "subprocess_run [''git'', ''push''] (repo_path s) (git_push inp) w2")
        case (Raised e w3)
        with subprocess_run_Raised [OF Raised] 1 2 l2 show ?thesis
          by (simp add: record_sync_clean_def)
      next
        case 3: (Ok w3)
        from subprocess_run_Ok [OF 3] l2 have l3: "ledger s w3 = ?L" by simp
        let ?w3 = "print (''Captured and uploaded image at '' @ ts) w3"
        show ?thesis
        proof (cases "os_remove path ?w3")
          case (Raised e w4)
          with os_remove_Raised [OF Raised] 1 2 3 l3 show ?thesis
            by (simp add: record_sync_clean_def)
        next
          case 4: (Ok w4)
          have "ledger s w4 = ledger s ?w3"
            by (rule ledger_files_cong) (rule os_remove_keeps [OF 4 ne [symmetric]])
          with l3 have l4: "ledger s w4 = ?L" by simp
          let ?w4 = "print (''Deleted local image at '' @ path) w4"
          have "ledger s (world_of (manage_disk_usage (output_dir s) 80 ?w4)) = ledger s ?w4"
            by (rule ledger_files_cong) (simp only: wf manage_keeps_ledger)
          with l4 have l5: "ledger s (world_of (manage_disk_usage (output_dir s) 80 ?w4)) = ?L"
            by simp
          show ?thesis
          proof (cases "manage_disk_usage (output_dir s) 80 ?w4")
            case (Raised e w5)
            with l5 1 2 3 4 show ?thesis by (simp add: record_sync_clean_def)
          next
            case 5: (Ok w5)
            with l5 have l5': "ledger s w5 = ?L" by simp
            show ?thesis
            proof (cases "time_sleep (interval s) w5")
              case (Raised e w6)
              with time_sleep_Raised [OF Raised] 1 2 3 4 5 l5' show ?thesis
                by (simp add: record_sync_clean_def)
            next
              case 6: (Ok w6)
              with time_sleep_Ok [OF 6] 1 2 3 4 5 l5' show ?thesis
                by (simp add: record_sync_clean_def)
            qed
          qed
        qed
      qed
    qed
  qed
qed

lemma capture_and_save_ledger:
  assumes "path \<noteq> metadata_path s"
  shows "ledger s (world_of (capture_and_save path inp w)) = ledger s w"
proof (cases "capture_and_save path inp w")
  case (Ok w')
  from capture_and_save_Ok [OF Ok] assms have
    "map_of (files w') (metadata_path s) = map_of (files w) (metadata_path s)"
    by auto
  with Ok show ?thesis by (simp add: ledger_def)
next
  case (Raised e w')
  from capture_and_save_Raised [OF Raised] have "files w' = files w" by blast
  with Raised show ?thesis by (simp add: ledger_def)
qed

lemma iteration_Next_ledger:
  assumes wf: "metadata_path s = os_path_join (output_dir s) ''metadata.csv''"
    and n: "iteration s inp w = Next w'"
  shows "ledger s w' = Some (text_of (ledger s w) @
           timestamp_of inp @ '','' @ image_path_of s inp @ [newline])"
    and "completed (trace w') = Suc (completed (trace w))"
proof -
  have ne: "image_path_of s inp \<noteq> metadata_path s"
    unfolding wf by (rule image_path_not_ledger)
  from n obtain w_save where
    c: "capture_and_save (image_path_of s inp) inp (emit (Strftime (timestamp_of inp)) w)
          = Ok w_save"
    and r: "record_sync_clean s (timestamp_of inp) (image_path_of s inp) inp w_save = Ok w'"
    by (auto simp: iteration_def Let_def image_path_of_def timestamp_of_def
        split: result.splits)
  from capture_and_save_ledger [OF ne, of inp "emit (Strftime (timestamp_of inp)) w"] c
  have "ledger s w_save = ledger s w" by simp
  with record_sync_clean_ledger [OF wf ne, of "timestamp_of inp" inp w_save] r
  show "ledger s w' = Some (text_of (ledger s w) @
           timestamp_of inp @ '','' @ image_path_of s inp @ [newline])"
    by simp
  from iteration_Next_trace [OF n] obtain w_mid w_guard evs where
    m: "trace w_mid = trace w @ evs" "completed evs = 0"
    and g: "manage_disk_usage (output_dir s) 80 w_mid = Ok w_guard"
    and t: "trace w' = trace w_guard @ [Slept (interval s)]"
    by fastforce
  from manage_disk_usage_trace [of "output_dir s" 80 w_mid] g obtain gevs where
    "trace w_guard = trace w_mid @ gevs" "list_all disk_guard_event gevs"
    by auto
  with m t show "completed (trace w') = Suc (completed (trace w))"
    by (simp add: completed_disk_guard)
qed

lemma iteration_Continue_ledger:
  assumes "iteration s inp w = Continue w'"
  shows "ledger s w' = ledger s w" and "completed (trace w') = completed (trace w)"
proof -
  from assms obtain e w1 where
    c: "capture_and_save (image_path_of s inp) inp (emit (Strftime (timestamp_of inp)) w)
          = Raised e w1"
    and w': "w' = print (''Failed to capture or save image: '' @ str e) w1"
    by (auto simp: iteration_def Let_def image_path_of_def timestamp_of_def
        split: result.splits)
  from capture_and_save_Raised [OF c] obtain evs where
    f: "files w1 = files w" and t: "trace w1 = trace w @ Strftime (timestamp_of inp) # evs"
    and q: "list_all quiet evs"
    by auto
  from f w' show "ledger s w' = ledger s w" by (simp add: ledger_def)
  from t q w' show "completed (trace w') = completed (trace w)"
    by (simp add: completed_quiet)
qed

text \<open>Whatever a pass does, what the ledger held before is a prefix of what it holds after.\<close>

lemma iteration_ledger_prefix:
  assumes wf: "metadata_path s = os_path_join (output_dir s) ''metadata.csv''"
  shows "\<exists>suffix. text_of (ledger s (step_world (iteration s inp w)))
                     = text_of (ledger s w) @ suffix"
proof -
  let ?w0 = "emit (Strftime (timestamp_of inp)) w"
  have ne: "image_path_of s inp \<noteq> metadata_path s"
    unfolding wf by (rule image_path_not_ledger)
  show ?thesis
  proof (cases "capture_and_save (image_path_of s inp) inp ?w0")
    case (Raised e w1)
    from capture_and_save_Raised [OF Raised] have "files w1 = files w" by simp
    with Raised show ?thesis
      by (simp add: iteration_def Let_def image_path_of_def timestamp_of_def ledger_def)
  next
    case (Ok w1)
    from capture_and_save_ledger [OF ne, of inp ?w0] Ok have l: "ledger s w1 = ledger s w"
      by simp
    let ?r = "record_sync_clean s (timestamp_of inp) (image_path_of s inp) inp w1"
    have "step_world (iteration s inp w) = world_of ?r"
      using Ok
      by (cases ?r)
         (simp_all add: iteration_def Let_def image_path_of_def timestamp_of_def)
    with record_sync_clean_ledger [OF wf ne, of "timestamp_of inp" inp w1] l
    show ?thesis by (simp add: text_of_def)
  qed
qed

subsection \<open>Timestamps\<close>

lemma decimal_four_digits:
  assumes "1000 \<le> y" and "y \<le> 9999"
  shows "decimal y = [digit_char (y div 1000), digit_char (y div 100), digit_char (y div 10),
                      digit_char y]"
proof -
  from assms have a: "\<not> y < 10" "\<not> y div 10 < 10" "\<not> y div 10 div 10 < 10"
    "y div 10 div 10 div 10 < 10"
    by simp_all
  have "decimal y = decimal (y div 10) @ [digit_char y]"
    using a(1) by (subst decimal.simps) simp
  also have "decimal (y div 10) = decimal (y div 10 div 10) @ [digit_char (y div 10)]"
    using a(2) by (subst decimal.simps) simp
  also have "decimal (y div 10 div 10)
      = decimal (y div 10 div 10 div 10) @ [digit_char (y div 10 div 10)]"
    using a(3) by (subst decimal.simps) simp
  also have "decimal (y div 10 div 10 div 10) = [digit_char (y div 10 div 10 div 10)]"
    using a(4) by (subst decimal.simps) simp
  finally show ?thesis by (simp add: div_mult2_eq [symmetric])
qed

lemma newline_not_digit [simp]: "\<not> is_digit newline"
  by (simp add: is_digit_def newline_def)

lemma digit_char_not_newline [simp]: "digit_char n \<noteq> newline"
  using is_digit_digit_char [of n] newline_not_digit by metis

lemma newline_neq [simp]:
  "newline \<noteq> CHR ''-''" "CHR ''-'' \<noteq> newline"
  "newline \<noteq> CHR '',''" "CHR '','' \<noteq> newline"
  "newline \<noteq> CHR ''/''" "CHR ''/'' \<noteq> newline"
  by (simp_all add: newline_def)

lemma digit_char_not_newline' [simp]: "newline \<noteq> digit_char n"
  using digit_char_not_newline [of n] by metis

lemma decimal_no_newline: "newline \<notin> set (decimal n)"
  using decimal_digits [of n] newline_not_digit by (auto simp: list_all_iff)

lemma strftime_no_newline: "newline \<notin> set (strftime t)"
  using decimal_no_newline [of "tm_year t"]
  by (auto simp: strftime_def two_digits_def)

lemma join_no_newline:
  "newline \<notin> set a \<Longrightarrow> newline \<notin> set b \<Longrightarrow> newline \<notin> set (os_path_join a b)"
  by (auto simp: os_path_join_def)

lemma endswith_append [simp]: "endswith (x @ suffix) suffix"
  by (simp add: endswith_def)

lemma join_endswith: "endswith (os_path_join a (x @ ''.jpg'')) ''.jpg''"
proof -
  have "\<exists>y. os_path_join a (x @ ''.jpg'') = y @ ''.jpg''"
    by (auto simp: os_path_join_def intro: exI [of _ "a @ x"] exI [of _ "a @ ''/'' @ x"])
  then show ?thesis by (auto simp del: append.simps)
qed

lemma entry_line_format:
  assumes y: "1000 \<le> tm_year t" "tm_year t \<le> 9999"
    and p: "endswith path ''.jpg''" "newline \<notin> set path"
  shows "is_entry_line (strftime t @ '','' @ path)"
  using p
  by (simp add: is_entry_line_def strftime_def decimal_four_digits [OF y] two_digits_def)

lemma entry_line_no_newline: "newline \<notin> set path \<Longrightarrow> newline \<notin> set (strftime t @ '','' @ path)"
  using strftime_no_newline [of t] by auto

subsection \<open>Lines\<close>

lemma lines_of_line:
  "newline \<notin> set l \<Longrightarrow> lines_of (l @ newline # rest) = l # lines_of rest"
  by (induction l) auto

lemma lines_of_unlines:
  "list_all (\<lambda>l. newline \<notin> set l) ls \<Longrightarrow> lines_of (unlines ls) = ls"
  by (induction ls) (simp_all add: unlines_def lines_of_line)

lemma unlines_append [simp]: "unlines (xs @ ys) = unlines xs @ unlines ys"
  by (simp add: unlines_def)

lemma unlines_Cons: "unlines (l # ls) = l @ newline # unlines ls"
  by (simp add: unlines_def)

subsection \<open>The ledger through a run\<close>

lemma main_loop_ledger:
  assumes wf: "metadata_path s = os_path_join (output_dir s) ''metadata.csv''"
    and nl: "newline \<notin> set (output_dir s)"
    and "list_all four_digit_year inps"
    and "main_loop s inps w = LoopRunning w'"
  shows "\<exists>entries. text_of (ledger s w') = text_of (ledger s w) @ unlines entries
           \<and> completed (trace w') = completed (trace w) + length entries
           \<and> list_all is_entry_line entries
           \<and> list_all (\<lambda>l. newline \<notin> set l) entries"
  using assms(3,4)
proof (induction inps arbitrary: w)
  case Nil
  then show ?case by (intro exI [of _ "[]"]) (simp add: unlines_def)
next
  case (Cons inp inps)
  from Cons.prems have y: "four_digit_year inp" and ys: "list_all four_digit_year inps"
    by simp_all
  show ?case
  proof (cases "iteration s inp w")
    case (Abort e w1)
    with Cons.prems show ?thesis by (simp add: main_loop_Cons)
  next
    case (Continue w1)
    with Cons.prems have "main_loop s inps w1 = LoopRunning w'" by (simp add: main_loop_Cons)
    from Cons.IH [OF ys this] iteration_Continue_ledger [OF Continue]
    show ?thesis by simp
  next
    case (Next w1)
    with Cons.prems have "main_loop s inps w1 = LoopRunning w'" by (simp add: main_loop_Cons)
    from Cons.IH [OF ys this] obtain entries where
      e: "text_of (ledger s w') = text_of (ledger s w1) @ unlines entries"
      "completed (trace w') = completed (trace w1) + length entries"
      "list_all is_entry_line entries" "list_all (\<lambda>l. newline \<notin> set l) entries"
      by blast
    let ?line = "timestamp_of inp @ '','' @ image_path_of s inp"
    have p1: "endswith (image_path_of s inp) ''.jpg''"
      unfolding image_path_of_def by (rule join_endswith)
    have p2: "newline \<notin> set (image_path_of s inp)"
      unfolding image_path_of_def timestamp_of_def
      using nl strftime_no_newline [of "now_local inp"]
      by (intro join_no_newline) (auto simp: newline_def)
    from y have "is_entry_line ?line"
      unfolding timestamp_of_def four_digit_year_def
      by (intro entry_line_format p1 p2) simp_all
    moreover have "newline \<notin> set ?line"
      unfolding timestamp_of_def by (rule entry_line_no_newline [OF p2])
    moreover from iteration_Next_ledger [OF wf Next] have
      "text_of (ledger s w1) = text_of (ledger s w) @ ?line @ [newline]"
      "completed (trace w1) = Suc (completed (trace w))"
      by (simp_all add: text_of_def)
    ultimately show ?thesis
      using e by (intro exI [of _ "?line # entries"]) (simp add: unlines_Cons)
  qed
qed

lemma bootstrap_ledger:
  assumes wf: "metadata_path s = os_path_join (output_dir s) ''metadata.csv''"
    and rp: "readme_path s = os_path_join (output_dir s) ''README.md''"
    and b: "bootstrap s b w = Ok w1"
  shows "text_of (ledger s w1) =
           (if os_path_exists (metadata_path s) w then text_of (ledger s w)
            else ''Timestamp,Image Path'' @ [newline])"
    and "completed (trace w1) = completed (trace w)"
proof -
  have ne: "readme_path s \<noteq> metadata_path s" "metadata_path s \<noteq> output_dir s"
    unfolding wf rp by (rule readme_not_ledger, rule ledger_not_dir)
  from b show "text_of (ledger s w1) =
           (if os_path_exists (metadata_path s) w then text_of (ledger s w)
            else ''Timestamp,Image Path'' @ [newline])"
    using ne
    unfolding bootstrap_def Let_def and_then_Ok_iff
    by (auto dest!: subprocess_run_Ok
        simp: os_path_exists_def os_makedirs_def write_file_def ledger_def update_conv
          text_of_def)
  from b show "completed (trace w1) = completed (trace w)"
    unfolding bootstrap_def Let_def and_then_Ok_iff
    by (auto dest!: subprocess_run_Ok simp: os_makedirs_def write_file_def)
qed

lemma new_session_paths:
  "metadata_path (new_session args b)
     = os_path_join (output_dir (new_session args b)) ''metadata.csv''"
  "readme_path (new_session args b)
     = os_path_join (output_dir (new_session args b)) ''README.md''"
  "output_dir (new_session args b)
     = ''images/'' @ args_experiment_name args @ ''_'' @ strftime (session_local b)"
  by (simp_all add: new_session_def Let_def)

lemma program_running:
  assumes "parse_args name_arg interval_arg = Some args"
    and "program name_arg interval_arg b inps w = StillRunning w'"
  shows "\<exists>w1. bootstrap (new_session args b) b w = Ok w1
             \<and> main_loop (new_session args b) inps w1 = LoopRunning w'"
  using assms
  by (auto simp: program_def split: camera_init.splits result.splits loop_result.splits)

lemma program_ledger:
  assumes p: "parse_args name_arg interval_arg = Some args"
    and r: "program name_arg interval_arg b inps w = StillRunning w'"
    and n: "newline \<notin> set name_arg"
    and y: "list_all four_digit_year inps"
  shows "\<exists>entries.
           text_of (ledger (new_session args b) w') =
             (if os_path_exists (metadata_path (new_session args b)) w
              then text_of (ledger (new_session args b) w)
              else ''Timestamp,Image Path'' @ [newline]) @ unlines entries
         \<and> completed (trace w') = completed (trace w) + length entries
         \<and> list_all is_entry_line entries
         \<and> list_all (\<lambda>l. newline \<notin> set l) entries"
proof -
  let ?s = "new_session args b"
  from program_running [OF p r] obtain w1 where
    b: "bootstrap ?s b w = Ok w1" and l: "main_loop ?s inps w1 = LoopRunning w'"
    by blast
  from p have "args_experiment_name args = name_arg"
    by (auto simp: parse_args_def)
  with n strftime_no_newline [of "session_local b"] have nl: "newline \<notin> set (output_dir ?s)"
    by (auto simp: new_session_paths(3) newline_def)
  from main_loop_ledger [OF new_session_paths(1) nl y l]
    bootstrap_ledger [OF new_session_paths(1,2) b]
  show ?thesis by simp
qed

lemma header_no_newline: "newline \<notin> set ''Timestamp,Image Path''"
  by (simp add: newline_def)

text \<open>
  C8, as the code has it. At set-up the ledger receives the header line if and only if
  no file or directory exists at its path; a ledger that is already there is kept as it is.
  In a run that is still going after some passes, the ledger holds that beginning followed
  by one line \<open>timestamp,path\<close> for each pass that reached its bottom, in order, each
  matching \<^verbatim>\<open>^\d{8}-\d{6},.*\.jpg$\<close> (for an experiment name without a newline and clock
  years of four digits). When the ledger did not exist at set-up its lines are the header
  and these entries, one more line than completed passes. Whatever a pass does, what the
  ledger held before the pass is a prefix of what it holds after it.
\<close>

theorem ledger_header_then_one_line_per_pass:
  assumes "parse_args name_arg interval_arg = Some args"
    and "program name_arg interval_arg b inps w = StillRunning w'"
    and "newline \<notin> set name_arg"
    and "list_all four_digit_year inps"
  shows "\<exists>entries.
           text_of (ledger (new_session args b) w') =
             (if os_path_exists (metadata_path (new_session args b)) w
              then text_of (ledger (new_session args b) w)
              else ''Timestamp,Image Path'' @ [newline]) @ unlines entries
         \<and> length entries = completed (trace w') - completed (trace w)
         \<and> list_all is_entry_line entries
         \<and> (\<not> os_path_exists (metadata_path (new_session args b)) w \<longrightarrow>
               lines_of (text_of (ledger (new_session args b) w'))
                 = ''Timestamp,Image Path'' # entries
             \<and> length (lines_of (text_of (ledger (new_session args b) w')))
                 = completed (trace w') - completed (trace w) + 1)
         \<and> (\<forall>inp w0. \<exists>suffix.
               text_of (ledger (new_session args b)
                          (step_world (iteration (new_session args b) inp w0)))
                 = text_of (ledger (new_session args b) w0) @ suffix)"
proof -
  let ?s = "new_session args b"
  from program_ledger [OF assms] obtain entries where
    t: "text_of (ledger ?s w') =
             (if os_path_exists (metadata_path ?s) w then text_of (ledger ?s w)
              else ''Timestamp,Image Path'' @ [newline]) @ unlines entries"
    and c: "completed (trace w') = completed (trace w) + length entries"
    and e: "list_all is_entry_line entries"
    and n: "list_all (\<lambda>l. newline \<notin> set l) entries"
    by blast
  have fresh: "lines_of (text_of (ledger ?s w')) = ''Timestamp,Image Path'' # entries
      \<and> length (lines_of (text_of (ledger ?s w')))
          = completed (trace w') - completed (trace w) + 1"
    if "\<not> os_path_exists (metadata_path ?s) w"
  proof -
    from that t have "text_of (ledger ?s w') = unlines (''Timestamp,Image Path'' # entries)"
      by (simp add: unlines_Cons)
    moreover have "list_all (\<lambda>l. newline \<notin> set l) (''Timestamp,Image Path'' # entries)"
      using n header_no_newline by simp
    ultimately have "lines_of (text_of (ledger ?s w')) = ''Timestamp,Image Path'' # entries"
      by (simp only: lines_of_unlines)
    with c show ?thesis by simp
  qed
  have prefix: "\<forall>inp w0. \<exists>suffix.
               text_of (ledger ?s (step_world (iteration ?s inp w0)))
                 = text_of (ledger ?s w0) @ suffix"
    using iteration_ledger_prefix [OF new_session_paths(1)] by blast
  from t c e fresh prefix show ?thesis
    by (intro exI [of _ entries]) simp
qed

lemmas program_simps = program_def bootstrap_def os_path_exists_def os_makedirs_def
  readme_text_def new_session_def parse_args_def py_int_def strip_def is_space_def
  is_digit_def digit_value_def main_loop_def ledger_def text_of_def

lemma sample_args:
  "parse_args ''trial1'' ''5''
     = Some \<lparr>args_experiment_name = ''trial1'', args_image_interval = 5\<rparr>"
  by (simp add: program_simps)

lemma sample_new_session:
  "new_session \<lparr>args_experiment_name = ''trial1'', args_image_interval = 5\<rparr> sample_boot
     = sample_session"
  by (simp add: new_session_def sample_session_def sample_boot_def sample_time_def
      strftime_def two_digits_def digit_char_def decimal.simps os_path_join_def)

lemma is_running_eq: "is_running r \<Longrightarrow> r = StillRunning (outcome_world r)"
  by (cases r) simp_all

lemma fresh_run:
  "is_running (program ''trial1'' ''5'' sample_boot [failing_tick, sample_tick] empty_world)"
  "completed (trace (outcome_world
      (program ''trial1'' ''5'' sample_boot [failing_tick, sample_tick] empty_world))) = 1"
  "ledger sample_session (outcome_world
      (program ''trial1'' ''5'' sample_boot [failing_tick, sample_tick] empty_world))
    = Some (''Timestamp,Image Path'' @ [newline] @
            ''20240309-070505,images/trial1_20240309-070500/20240309-070505.jpg'' @ [newline])"
  by code_simp+

lemma reused_run:
  "is_running (program ''trial1'' ''5'' sample_boot [sample_tick] reused_world)"
  "completed (trace (outcome_world
      (program ''trial1'' ''5'' sample_boot [sample_tick] reused_world))) = 1"
  "ledger sample_session (outcome_world
      (program ''trial1'' ''5'' sample_boot [sample_tick] reused_world))
    = Some (''20240309-070505,images/trial1_20240309-070500/20240309-070505.jpg'' @ [newline])"
  by code_simp+

theorem ledger_header_then_one_line_per_pass_witness:
  "parse_args ''trial1'' ''5''
     = Some \<lparr>args_experiment_name = ''trial1'', args_image_interval = 5\<rparr>
   \<and> program ''trial1'' ''5'' sample_boot [failing_tick, sample_tick] empty_world
       = StillRunning (outcome_world
           (program ''trial1'' ''5'' sample_boot [failing_tick, sample_tick] empty_world))
   \<and> newline \<notin> set ''trial1''
   \<and> list_all four_digit_year [failing_tick, sample_tick]
   \<and> completed (trace (outcome_world
         (program ''trial1'' ''5'' sample_boot [failing_tick, sample_tick] empty_world))) = 1
   \<and> lines_of (text_of (ledger sample_session (outcome_world
         (program ''trial1'' ''5'' sample_boot [failing_tick, sample_tick] empty_world))))
       = [''Timestamp,Image Path'',
          ''20240309-070505,images/trial1_20240309-070500/20240309-070505.jpg'']
   \<and> is_entry_line ''20240309-070505,images/trial1_20240309-070500/20240309-070505.jpg''
   \<and> (\<exists>entries.
           text_of (ledger sample_session (outcome_world
             (program ''trial1'' ''5'' sample_boot [failing_tick, sample_tick] empty_world))) =
             (if os_path_exists (metadata_path sample_session) empty_world
              then text_of (ledger sample_session empty_world)
              else ''Timestamp,Image Path'' @ [newline]) @ unlines entries
         \<and> length entries = completed (trace (outcome_world
             (program ''trial1'' ''5'' sample_boot [failing_tick, sample_tick] empty_world)))
             - completed (trace empty_world)
         \<and> list_all is_entry_line entries)"
proof -
  let ?w' = "outcome_world
           (program ''trial1'' ''5'' sample_boot [failing_tick, sample_tick] empty_world)"
  have r: "program ''trial1'' ''5'' sample_boot [failing_tick, sample_tick] empty_world
             = StillRunning ?w'"
    by (rule is_running_eq) (rule fresh_run(1))
  have n: "newline \<notin> set ''trial1''" by (simp add: newline_def)
  have y: "list_all four_digit_year [failing_tick, sample_tick]"
    by (simp add: four_digit_year_def failing_tick_def sample_tick_def sample_time_def)
  have l: "lines_of (text_of (ledger sample_session ?w'))
       = [''Timestamp,Image Path'',
          ''20240309-070505,images/trial1_20240309-070500/20240309-070505.jpg'']"
    unfolding fresh_run(3) by (simp add: text_of_def newline_def)
  have e: "is_entry_line ''20240309-070505,images/trial1_20240309-070500/20240309-070505.jpg''"
    by (simp add: is_entry_line_def is_digit_def endswith_def newline_def)
  from ledger_header_then_one_line_per_pass [OF sample_args r n y]
  have "\<exists>entries.
           text_of (ledger sample_session ?w') =
             (if os_path_exists (metadata_path sample_session) empty_world
              then text_of (ledger sample_session empty_world)
              else ''Timestamp,Image Path'' @ [newline]) @ unlines entries
         \<and> length entries = completed (trace ?w') - completed (trace empty_world)
         \<and> list_all is_entry_line entries"
    unfolding sample_new_session by blast
  with sample_args r n y fresh_run(2) l e show ?thesis by blast
qed

theorem ledger_line_count_counterexample:
  "parse_args ''trial1'' ''5''
     = Some \<lparr>args_experiment_name = ''trial1'', args_image_interval = 5\<rparr>
   \<and> is_running (program ''trial1'' ''5'' sample_boot [sample_tick] reused_world)
   \<and> completed (trace (outcome_world
         (program ''trial1'' ''5'' sample_boot [sample_tick] reused_world))) = 1
   \<and> lines_of (text_of (ledger sample_session (outcome_world
         (program ''trial1'' ''5'' sample_boot [sample_tick] reused_world))))
       = [''20240309-070505,images/trial1_20240309-070500/20240309-070505.jpg'']
   \<and> length (lines_of (text_of (ledger sample_session (outcome_world
         (program ''trial1'' ''5'' sample_boot [sample_tick] reused_world))))) \<noteq> 1 + 1"
proof -
  have "lines_of (text_of (ledger sample_session (outcome_world
         (program ''trial1'' ''5'' sample_boot [sample_tick] reused_world))))
       = [''20240309-070505,images/trial1_20240309-070500/20240309-070505.jpg'']"
    unfolding reused_run(3) by (simp add: text_of_def newline_def)
  with sample_args reused_run(1,2) show ?thesis by simp
qed

end
